theory Spec2Isabelle
  imports Main "HOL-Library.Word"
begin

text \<open>
  A shallow embedding of the replication engine: the \<^verbatim>\<open>Replica\<close> of
  \<^verbatim>\<open>src/replica/index.ts\<close> (start-up, \<^verbatim>\<open>add\<close>, \<^verbatim>\<open>write\<close>, \<^verbatim>\<open>has\<close>, \<^verbatim>\<open>known\<close>), the
  static access controller, and \<^verbatim>\<open>Welo.open\<close> of \<^verbatim>\<open>src/welo.ts\<close>. An asynchronous
  method is run from its call to its end as one step, its awaits in the order of the source;
  a thrown error is the \<open>Inl\<close> of a sum, and a mutated object is passed in and returned.
  What the sources import and do not contain is either a parameter or, where said so, a
  definition modelled from the spec.
\<close>

section \<open>Data model\<close>

text \<open>
  Byte strings (\<^verbatim>\<open>Uint8Array\<close>) are lists of 8-bit words. A content identifier
  (\<^verbatim>\<open>CID\<close>) is represented by its raw bytes.
\<close>

type_synonym byte = "8 word"
type_synonym bytes = "byte list"
type_synonym cid = bytes

text \<open>
  \<^verbatim>\<open>IdentityInstance\<close>: the fields the replica and the access controller read,
  \<^verbatim>\<open>id: Uint8Array\<close> and \<^verbatim>\<open>block\<close> (kept as the CID under which the block is stored).
\<close>

record IdentityInstance =
  identity_id :: bytes
  identity_block :: cid

text \<open>
  \<^verbatim>\<open>EntryInstance\<close>: \<^verbatim>\<open>cid\<close> (the CID of \<^verbatim>\<open>entry.block\<close>), \<^verbatim>\<open>tag\<close>,
  \<^verbatim>\<open>payload\<close>, \<^verbatim>\<open>next\<close> and \<^verbatim>\<open>identity\<close>.
\<close>

record EntryInstance =
  entry_cid :: cid
  entry_tag :: bytes
  entry_payload :: bytes
  entry_next :: "cid list"
  entry_identity :: IdentityInstance

text \<open>The two events of \<^verbatim>\<open>ReplicaEvents\<close>.\<close>

datatype event = Write | Update

text \<open>The errors thrown by \<^verbatim>\<open>replica/index.ts\<close>, one constructor per message.\<close>

datatype error =
    ReplicaNotStarted    \<comment> \<open>\<^verbatim>\<open>'replica not started'\<close>\<close>
  | CannotReadGraph      \<comment> \<open>\<^verbatim>\<open>'Cannot read graph before replica is started'\<close>\<close>
  | FailedToGetRoot      \<comment> \<open>\<^verbatim>\<open>'failed to get root'\<close>, thrown by getRoot and by setRoot\<close>

text \<open>Why a read or write of one of the two stores was rejected.\<close>

datatype io_error = NotFoundError | IOFailure | DecodeFailure

subsection \<open>The pointer store and the block store of the root\<close>

text \<open>
  \<^verbatim>\<open>#datastore\<close> holds one key, \<^verbatim>\<open>rootHashKey\<close>. \<open>ds_rootHash\<close> is the value under
  that key; the two flags say whether the store rejects a read or a write with an
  I/O error.
\<close>

record Datastore =
  ds_rootHash :: "cid option"
  ds_get_fails :: bool
  ds_put_fails :: bool

text \<open>
  The bytes of a stored root block either decode to a \<^verbatim>\<open>GraphRoot\<close> value or do not.
  The block store has the same two flags, and \<open>bs_put_throws\<close> says how a failing
  \<^verbatim>\<open>put\<close> fails: by throwing at the call, or else by rejecting its promise.
\<close>

datatype 'r block_bytes = Encoded 'r | Corrupt

record 'r Blockstore =
  bs_blocks :: "cid \<rightharpoonup> 'r block_bytes"
  bs_get_fails :: bool
  bs_put_fails :: bool
  bs_put_throws :: bool

definition datastore_get :: "Datastore \<Rightarrow> io_error + cid" where
  "datastore_get ds =
     (if ds_get_fails ds then Inl IOFailure
      else case ds_rootHash ds of None \<Rightarrow> Inl NotFoundError | Some c \<Rightarrow> Inr c)"

definition datastore_put :: "Datastore \<Rightarrow> cid \<Rightarrow> io_error + Datastore" where
  "datastore_put ds c =
     (if ds_put_fails ds then Inl IOFailure else Inr (ds\<lparr>ds_rootHash := Some c\<rparr>))"

definition blockstore_get :: "'r Blockstore \<Rightarrow> cid \<Rightarrow> io_error + 'r block_bytes" where
  "blockstore_get bs c =
     (if bs_get_fails bs then Inl IOFailure
      else case bs_blocks bs c of None \<Rightarrow> Inl NotFoundError | Some b \<Rightarrow> Inr b)"

definition blockstore_put :: "'r Blockstore \<Rightarrow> cid \<Rightarrow> 'r block_bytes \<Rightarrow> io_error + 'r Blockstore" where
  "blockstore_put bs c b =
     (if bs_put_fails bs then Inl IOFailure
      else Inr (bs\<lparr>bs_blocks := (bs_blocks bs)(c \<mapsto> b)\<rparr>))"

subsection \<open>What replica/index.ts imports\<close>

text \<open>
  The class \<^verbatim>\<open>Graph\<close> (\<^verbatim>\<open>./graph.js\<close>), \<^verbatim>\<open>Blocks.encode\<close>, the access controller
  and the entry component are used by the replica through their interfaces only. They
  are parameters of the model: \<open>'g\<close> is the type of a graph, \<open>'r\<close> the type of a
  \<^verbatim>\<open>GraphRoot\<close> value. \<open>Blocks_encode\<close> gives the CID of the block that
  \<^verbatim>\<open>Blocks.encode({ value })\<close> builds. A graph is a value here, so the snapshot taken
  by \<^verbatim>\<open>clone()\<close> is the value itself. \<open>Graph_new\<close> is \<^verbatim>\<open>new Graph(blockstore, value)\<close>
  followed by \<^verbatim>\<open>start(graph)\<close>; \<open>Graph_denied\<close> is membership in the partition
  \<^verbatim>\<open>graph.denied\<close>; \<open>Graph_heads\<close> lists the keys of \<^verbatim>\<open>graph.heads\<close>. The promises of
  these collaborators, and of \<^verbatim>\<open>this.blocks.put\<close>, are taken to resolve: the source has
  no handler for their rejection, which would end the running call. The two stores of
  the root can reject, since \<^verbatim>\<open>getRoot\<close>, \<^verbatim>\<open>setRoot\<close> and \<open>starting\<close> catch that.
\<close>

record ('g, 'r) deps =
  Graph_new :: "'r option \<Rightarrow> 'g"
  Graph_add :: "cid \<Rightarrow> cid list \<Rightarrow> 'g \<Rightarrow> 'g"
  Graph_deny :: "cid \<Rightarrow> 'g \<Rightarrow> 'g"
  Graph_has :: "cid \<Rightarrow> 'g \<Rightarrow> bool"
  Graph_known :: "cid \<Rightarrow> 'g \<Rightarrow> bool"
  Graph_denied :: "cid \<Rightarrow> 'g \<Rightarrow> bool"
  Graph_equals :: "'g \<Rightarrow> 'g \<Rightarrow> bool"
  Graph_root :: "'g \<Rightarrow> 'r"
  Graph_heads :: "'g \<Rightarrow> cid list"
  Blocks_encode :: "'r \<Rightarrow> cid"
  access_canAppend :: "EntryInstance \<Rightarrow> bool"
  entry_create :: "IdentityInstance \<Rightarrow> bytes \<Rightarrow> bytes \<Rightarrow> cid list \<Rightarrow> EntryInstance"

section \<open>Replica\<close>

text \<open>
  The state of a \<^verbatim>\<open>Replica\<close>. \<open>blocks\<close> is the set of CIDs put through
  \<^verbatim>\<open>this.blocks\<close>; \<open>events\<close> lists the dispatched events, oldest first; \<open>warnings\<close>
  lists the \<^verbatim>\<open>console.warn\<close> messages; \<open>isStarted\<close> is the flag of the base class
  \<^verbatim>\<open>Playable\<close>.
\<close>

record ('g, 'r) Replica =
  manifest_tag :: bytes
  identity :: IdentityInstance
  blocks :: "cid set"
  datastore :: Datastore
  blockstore :: "'r Blockstore"
  graph :: "'g option"
  root :: "cid option"
  events :: "event list"
  warnings :: "string list"
  isStarted :: bool

text \<open>The constructor: no graph, no root, not started.\<close>

definition Replica_new ::
  "bytes \<Rightarrow> IdentityInstance \<Rightarrow> cid set \<Rightarrow> Datastore \<Rightarrow> 'r Blockstore \<Rightarrow> ('g, 'r) Replica" where
  "Replica_new tag idn blks ds bs =
     \<lparr>manifest_tag = tag, identity = idn, blocks = blks, datastore = ds, blockstore = bs,
      graph = None, root = None, events = [], warnings = [], isStarted = False\<rparr>"

text \<open>\<^verbatim>\<open>Blocks.decode({ bytes })\<close>: the block's CID and value, or a decode failure.\<close>

definition Blocks_decode :: "('g, 'r) deps \<Rightarrow> 'r block_bytes \<Rightarrow> io_error + cid \<times> 'r" where
  "Blocks_decode D b =
     (case b of Corrupt \<Rightarrow> Inl DecodeFailure | Encoded v \<Rightarrow> Inr (Blocks_encode D v, v))"

text \<open>
  \<^verbatim>\<open>getRoot\<close>: read the pointer, read the block, decode it. The \<^verbatim>\<open>catch\<close> turns every
  failure into the one error \<^verbatim>\<open>'failed to get root'\<close>.
\<close>

definition getRoot :: "('g, 'r) deps \<Rightarrow> Datastore \<Rightarrow> 'r Blockstore \<Rightarrow> error + cid \<times> 'r" where
  "getRoot D ds bs =
     (case datastore_get ds of
        Inl _ \<Rightarrow> Inl FailedToGetRoot
      | Inr rootHash \<Rightarrow>
          (case blockstore_get bs rootHash of
             Inl _ \<Rightarrow> Inl FailedToGetRoot
           | Inr b \<Rightarrow>
               (case Blocks_decode D b of
                  Inl _ \<Rightarrow> Inl FailedToGetRoot
                | Inr block \<Rightarrow> Inr block)))"

text \<open>
  \<^verbatim>\<open>setRoot\<close>: the array handed to \<^verbatim>\<open>Promise.all\<close> is built first, \<^verbatim>\<open>blockstore.put\<close>
  before \<^verbatim>\<open>datastore.put\<close>. A \<^verbatim>\<open>blockstore.put\<close> that throws at its call ends the building,
  so \<^verbatim>\<open>datastore.put\<close> is not called; one that rejects its promise lets
  \<^verbatim>\<open>datastore.put\<close> take effect. When \<^verbatim>\<open>datastore.put\<close> fails, in either way,
  \<^verbatim>\<open>blockstore.put\<close> has been called and takes effect. Every failure is rethrown as
  \<^verbatim>\<open>'failed to get root'\<close>.
\<close>

definition setRoot ::
  "Datastore \<Rightarrow> 'r Blockstore \<Rightarrow> cid \<Rightarrow> 'r \<Rightarrow> (error + unit) \<times> Datastore \<times> 'r Blockstore" where
  "setRoot ds bs c v =
     (case blockstore_put bs c (Encoded v) of
        Inl _ \<Rightarrow>
          if bs_put_throws bs then (Inl FailedToGetRoot, ds, bs)
          else (case datastore_put ds c of
                  Inr ds' \<Rightarrow> (Inl FailedToGetRoot, ds', bs)
                | Inl _ \<Rightarrow> (Inl FailedToGetRoot, ds, bs))
      | Inr bs' \<Rightarrow>
          (case datastore_put ds c of
             Inr ds' \<Rightarrow> (Inr (), ds', bs')
           | Inl _ \<Rightarrow> (Inl FailedToGetRoot, ds, bs')))"

text \<open>
  \<^verbatim>\<open>#updateRoot\<close>: encode the graph's root, persist it, set \<^verbatim>\<open>this.root\<close>, dispatch
  \<^verbatim>\<open>update\<close>. The getter \<^verbatim>\<open>this.graph\<close> throws when there is no graph.
\<close>

definition updateRoot :: "('g, 'r) deps \<Rightarrow> ('g, 'r) Replica \<Rightarrow> (error + unit) \<times> ('g, 'r) Replica" where
  "updateRoot D r =
     (case graph r of
        None \<Rightarrow> (Inl CannotReadGraph, r)
      | Some g \<Rightarrow>
          (let v = Graph_root D g; c = Blocks_encode D v in
           case setRoot (datastore r) (blockstore r) c v of
             (Inl e, ds', bs') \<Rightarrow> (Inl e, r\<lparr>datastore := ds', blockstore := bs'\<rparr>)
           | (Inr _, ds', bs') \<Rightarrow>
               (Inr (), r\<lparr>datastore := ds', blockstore := bs', root := Some c,
                           events := events r @ [Update]\<rparr>)))"

text \<open>
  \<^verbatim>\<open>starting\<close>: \<^verbatim>\<open>getRoot(...).catch(() => null)\<close>, then a new graph from the loaded
  value, then either \<^verbatim>\<open>#updateRoot()\<close> (nothing loaded) or \<^verbatim>\<open>this.root = root.cid\<close>.
\<close>

definition starting :: "('g, 'r) deps \<Rightarrow> ('g, 'r) Replica \<Rightarrow> (error + unit) \<times> ('g, 'r) Replica" where
  "starting D r =
     (let loaded = (case getRoot D (datastore r) (blockstore r) of
                      Inl _ \<Rightarrow> None | Inr block \<Rightarrow> Some block);
          r1 = r\<lparr>graph := Some (Graph_new D (map_option snd loaded))\<rparr>
      in case loaded of
           None \<Rightarrow> updateRoot D r1
         | Some block \<Rightarrow> (Inr (), r1\<lparr>root := Some (fst block)\<rparr>))"

text \<open>
  \<^verbatim>\<open>stopping\<close>: after \<^verbatim>\<open>_queue.onIdle()\<close> and \<^verbatim>\<open>stop(this.#graph)\<close> the graph is
  released.
\<close>

definition stopping :: "('g, 'r) Replica \<Rightarrow> ('g, 'r) Replica" where
  "stopping r = r\<lparr>graph := None\<rparr>"

text \<open>
  Modelled from the spec: the base class \<^verbatim>\<open>Playable\<close> (\<^verbatim>\<open>utils/playable.js\<close>) is not
  among the sources. Its \<^verbatim>\<open>start\<close> is idempotent when already running, runs
  \<open>starting\<close> and is running once that has succeeded; its \<^verbatim>\<open>stop\<close> is idempotent
  when already stopped, runs \<open>stopping\<close> and is stopped afterwards.
\<close>

definition Playable_start :: "('g, 'r) deps \<Rightarrow> ('g, 'r) Replica \<Rightarrow> (error + unit) \<times> ('g, 'r) Replica" where
  "Playable_start D r =
     (if isStarted r then (Inr (), r)
      else case starting D r of
             (Inl e, r') \<Rightarrow> (Inl e, r')
           | (Inr _, r') \<Rightarrow> (Inr (), r'\<lparr>isStarted := True\<rparr>))"

definition Playable_stop :: "('g, 'r) Replica \<Rightarrow> ('g, 'r) Replica" where
  "Playable_stop r = (if \<not> isStarted r then r else (stopping r)\<lparr>isStarted := False\<rparr>)"

text \<open>\<^verbatim>\<open>has\<close> and \<^verbatim>\<open>known\<close>: the guard, then the getter \<^verbatim>\<open>this.graph\<close>, then the graph's answer.\<close>

definition has :: "('g, 'r) deps \<Rightarrow> ('g, 'r) Replica \<Rightarrow> cid \<Rightarrow> error + bool" where
  "has D r c =
     (if \<not> isStarted r then Inl ReplicaNotStarted
      else case graph r of None \<Rightarrow> Inl CannotReadGraph | Some g \<Rightarrow> Inr (Graph_has D c g))"

definition known :: "('g, 'r) deps \<Rightarrow> ('g, 'r) Replica \<Rightarrow> cid \<Rightarrow> error + bool" where
  "known D r c =
     (if \<not> isStarted r then Inl ReplicaNotStarted
      else case graph r of None \<Rightarrow> Inl CannotReadGraph | Some g \<Rightarrow> Inr (Graph_known D c g))"

text \<open>
  One round of the loop of \<^verbatim>\<open>add\<close>: an entry with another tag is skipped with a warning;
  otherwise its block and its identity's block are put, and the access controller decides
  between \<^verbatim>\<open>graph.add\<close> and \<^verbatim>\<open>graph.deny\<close>.
\<close>

definition mismatched_tag :: string where
  "mismatched_tag = ''replica received entry with mismatched tag''"

definition add_entry ::
  "('g, 'r) deps \<Rightarrow> ('g, 'r) Replica \<Rightarrow> EntryInstance \<Rightarrow> (error + unit) \<times> ('g, 'r) Replica" where
  "add_entry D r entry =
     (if entry_tag entry \<noteq> manifest_tag r
      then (Inr (), r\<lparr>warnings := warnings r @ [mismatched_tag]\<rparr>)
      else
        (let r1 = r\<lparr>blocks := insert (entry_cid entry) (blocks r)\<rparr>;
             r2 = r1\<lparr>blocks := insert (identity_block (entry_identity entry)) (blocks r1)\<rparr>
         in case graph r2 of
              None \<Rightarrow> (Inl CannotReadGraph, r2)
            | Some g \<Rightarrow>
                if access_canAppend D entry
                then (Inr (), r2\<lparr>graph := Some (Graph_add D (entry_cid entry) (entry_next entry) g)\<rparr>)
                else (Inr (), r2\<lparr>graph := Some (Graph_deny D (entry_cid entry) g)\<rparr>)))"

fun add_entries ::
  "('g, 'r) deps \<Rightarrow> ('g, 'r) Replica \<Rightarrow> EntryInstance list \<Rightarrow> (error + unit) \<times> ('g, 'r) Replica" where
  "add_entries D r [] = (Inr (), r)"
| "add_entries D r (entry # entries) =
     (case add_entry D r entry of
        (Inl e, r') \<Rightarrow> (Inl e, r')
      | (Inr _, r') \<Rightarrow> add_entries D r' entries)"

text \<open>
  \<^verbatim>\<open>add\<close>: snapshot the graph, run the loop, and update the root when the graph no
  longer equals the snapshot. The first guard of the source tests the two stores against
  \<^verbatim>\<open>null\<close>; the constructor sets both, so it never fires.
\<close>

definition add ::
  "('g, 'r) deps \<Rightarrow> ('g, 'r) Replica \<Rightarrow> EntryInstance list \<Rightarrow> (error + unit) \<times> ('g, 'r) Replica" where
  "add D r entries =
     (case graph r of
        None \<Rightarrow> (Inl CannotReadGraph, r)
      | Some clone \<Rightarrow>
          (case add_entries D r entries of
             (Inl e, r') \<Rightarrow> (Inl e, r')
           | (Inr _, r') \<Rightarrow>
               (case graph r' of
                  None \<Rightarrow> (Inl CannotReadGraph, r')
                | Some g' \<Rightarrow>
                    if \<not> Graph_equals D g' clone then updateRoot D r' else (Inr (), r'))))"

text \<open>
  \<^verbatim>\<open>write\<close>: the guard, a new entry on the current heads, its block put, then
  \<^verbatim>\<open>add([entry])\<close> and, in the \<^verbatim>\<open>then\<close> callback, the \<^verbatim>\<open>write\<close> event.
\<close>

definition Replica_write ::
  "('g, 'r) deps \<Rightarrow> ('g, 'r) Replica \<Rightarrow> bytes \<Rightarrow> (error + EntryInstance) \<times> ('g, 'r) Replica" where
  "Replica_write D r payload =
     (if \<not> isStarted r then (Inl ReplicaNotStarted, r)
      else case graph r of
             None \<Rightarrow> (Inl CannotReadGraph, r)
           | Some g \<Rightarrow>
               (let entry = entry_create D (identity r) (manifest_tag r) payload (Graph_heads D g);
                    r1 = r\<lparr>blocks := insert (entry_cid entry) (blocks r)\<rparr>
                in case add D r1 [entry] of
                     (Inl e, r2) \<Rightarrow> (Inl e, r2)
                   | (Inr _, r2) \<Rightarrow> (Inr entry, r2\<lparr>events := events r2 @ [Write]\<rparr>)))"





text \<open>
  The states a replica can be in: constructed, then any sequence of \<^verbatim>\<open>start\<close>, \<^verbatim>\<open>stop\<close>,
  \<^verbatim>\<open>add\<close> and \<^verbatim>\<open>write\<close>, each run to its end.
\<close>

inductive reachable :: "('g, 'r) deps \<Rightarrow> ('g, 'r) Replica \<Rightarrow> bool" for D :: "('g, 'r) deps" where
  constructed: "reachable D (Replica_new tag idn blks ds bs)"
| started: "reachable D r \<Longrightarrow> reachable D (snd (Playable_start D r))"
| stopped: "reachable D r \<Longrightarrow> reachable D (Playable_stop r)"
| added: "reachable D r \<Longrightarrow> reachable D (snd (add D r entries))"
| written: "reachable D r \<Longrightarrow> reachable D (snd (Replica_write D r payload))"

text \<open>
  Whether some occurrence of the event \<open>a\<close> in a list of dispatched events comes before
  an occurrence of the event \<open>b\<close>.
\<close>

fun delivered_before :: "event \<Rightarrow> event \<Rightarrow> event list \<Rightarrow> bool" where
  "delivered_before a b [] = False"
| "delivered_before a b (x # xs) = ((x = a \<and> b \<in> set xs) \<or> delivered_before a b xs)"

section \<open>Graph\<close>

text \<open>
  Modelled from the spec: the class \<^verbatim>\<open>Graph\<close> (\<^verbatim>\<open>replica/graph.js\<close>) is not among the
  sources. The spec's section 4.1 gives its operations: \<^verbatim>\<open>add(hash, next[])\<close> inserts an
  entry, places its unresolved \<^verbatim>\<open>next\<close> targets into \<^verbatim>\<open>missing\<close> and is a no-op on an
  already accepted entry; \<^verbatim>\<open>deny(hash)\<close> marks the hash permanently denied, removes it
  from the other partitions, and a denied hash is never processed again by \<^verbatim>\<open>add\<close>;
  \<^verbatim>\<open>has\<close> is membership among the accepted entries, \<^verbatim>\<open>known\<close> among the accepted or
  missing ones; \<^verbatim>\<open>equals\<close> is equality of the four partitions. Heads are the accepted
  entries that no accepted entry references, tails the accepted entries with no accepted
  predecessor (the glossary's wording). An added entry is accepted whether or not all its
  \<^verbatim>\<open>next\<close> targets are resolved, as the spec's linear-chain scenario needs. The root
  value is the snapshot itself. Cycle detection is left out.
\<close>

record Graph =
  nodes :: "(cid \<times> cid list) list"
  missing :: "cid list"
  denied :: "cid list"

definition graph_empty :: Graph where
  "graph_empty = \<lparr>nodes = [], missing = [], denied = []\<rparr>"

definition graph_has :: "cid \<Rightarrow> Graph \<Rightarrow> bool" where
  "graph_has c g = (c \<in> set (map fst (nodes g)))"

definition graph_denied :: "cid \<Rightarrow> Graph \<Rightarrow> bool" where
  "graph_denied c g = (c \<in> set (denied g))"

definition graph_known :: "cid \<Rightarrow> Graph \<Rightarrow> bool" where
  "graph_known c g = (graph_has c g \<or> c \<in> set (missing g))"

definition graph_heads :: "Graph \<Rightarrow> cid list" where
  "graph_heads g = filter (\<lambda>c. c \<notin> set (concat (map snd (nodes g)))) (map fst (nodes g))"

definition graph_tails :: "Graph \<Rightarrow> cid list" where
  "graph_tails g =
     map fst (filter (\<lambda>node. filter (\<lambda>x. graph_has x g) (snd node) = []) (nodes g))"

definition graph_add :: "cid \<Rightarrow> cid list \<Rightarrow> Graph \<Rightarrow> Graph" where
  "graph_add c n g =
     (if graph_denied c g \<or> graph_has c g then g
      else g\<lparr>nodes := nodes g @ [(c, n)],
             missing := filter (\<lambda>x. x \<noteq> c) (missing g) @
               filter (\<lambda>x. x \<noteq> c \<and> \<not> graph_has x g \<and> \<not> graph_denied x g \<and> x \<notin> set (missing g))
                 (remdups n)\<rparr>)"

definition graph_deny :: "cid \<Rightarrow> Graph \<Rightarrow> Graph" where
  "graph_deny c g =
     (if graph_denied c g then g
      else g\<lparr>nodes := filter (\<lambda>node. fst node \<noteq> c) (nodes g),
             missing := filter (\<lambda>x. x \<noteq> c) (missing g),
             denied := denied g @ [c]\<rparr>)"

definition graph_equals :: "Graph \<Rightarrow> Graph \<Rightarrow> bool" where
  "graph_equals g h =
     (set (graph_heads g) = set (graph_heads h) \<and> set (graph_tails g) = set (graph_tails h) \<and>
      set (missing g) = set (missing h) \<and> set (denied g) = set (denied h))"

definition graph_new :: "Graph option \<Rightarrow> Graph" where
  "graph_new v = (case v of None \<Rightarrow> graph_empty | Some g \<Rightarrow> g)"

text \<open>
  The collaborators of a replica whose graph is the one above; the hash of a root block, the
  access controller and the entry component stay parameters.
\<close>

definition graph_deps ::
  "(Graph \<Rightarrow> cid) \<Rightarrow> (EntryInstance \<Rightarrow> bool) \<Rightarrow>
   (IdentityInstance \<Rightarrow> bytes \<Rightarrow> bytes \<Rightarrow> cid list \<Rightarrow> EntryInstance) \<Rightarrow> (Graph, Graph) deps" where
  "graph_deps enc can create =
     \<lparr>Graph_new = graph_new, Graph_add = graph_add, Graph_deny = graph_deny,
      Graph_has = graph_has, Graph_known = graph_known, Graph_denied = graph_denied,
      Graph_equals = graph_equals, Graph_root = (\<lambda>g. g), Graph_heads = graph_heads,
      Blocks_encode = enc, access_canAppend = can, entry_create = create\<rparr>"

text \<open>
  Modelled from the spec: what section 4.1 says of a repeated operation, for any graph
  class. \<^verbatim>\<open>equals\<close> holds of a graph and itself; re-adding an accepted entry is a no-op;
  a denied hash is never processed again, neither by \<^verbatim>\<open>add\<close> nor by \<^verbatim>\<open>deny\<close>; \<^verbatim>\<open>add\<close>
  leaves its entry accepted unless it is denied; \<^verbatim>\<open>deny\<close> leaves its hash denied; a
  denied hash stays denied, and an accepted one stays accepted until it is denied.
\<close>

definition Graph_settles :: "('g, 'r) deps \<Rightarrow> bool" where
  "Graph_settles D \<longleftrightarrow>
     (\<forall>g. Graph_equals D g g) \<and>
     (\<forall>c n g. Graph_has D c g \<longrightarrow> Graph_add D c n g = g) \<and>
     (\<forall>c n g. Graph_denied D c g \<longrightarrow> Graph_add D c n g = g) \<and>
     (\<forall>c g. Graph_denied D c g \<longrightarrow> Graph_deny D c g = g) \<and>
     (\<forall>c n g. Graph_has D c (Graph_add D c n g) \<or> Graph_denied D c (Graph_add D c n g)) \<and>
     (\<forall>c g. Graph_denied D c (Graph_deny D c g)) \<and>
     (\<forall>c c' n g. Graph_denied D c g \<longrightarrow>
        Graph_denied D c (Graph_add D c' n g) \<and> Graph_denied D c (Graph_deny D c' g)) \<and>
     (\<forall>c c' n g. Graph_has D c g \<longrightarrow>
        (Graph_has D c (Graph_add D c' n g) \<or> Graph_denied D c (Graph_add D c' n g)) \<and>
        (Graph_has D c (Graph_deny D c' g) \<or> Graph_denied D c (Graph_deny D c' g)))"

text \<open>
  A graph class that only records the calls made to it, in order: the replica run on it
  shows which calls it makes.
\<close>

datatype graph_call = CallAdd cid "cid list" | CallDeny cid

definition recording_deps ::
  "(EntryInstance \<Rightarrow> bool) \<Rightarrow> (graph_call list, graph_call list) deps" where
  "recording_deps can =
     \<lparr>Graph_new = (\<lambda>v. case v of None \<Rightarrow> [] | Some l \<Rightarrow> l),
      Graph_add = (\<lambda>c n l. l @ [CallAdd c n]), Graph_deny = (\<lambda>c l. l @ [CallDeny c]),
      Graph_has = (\<lambda>c l. False), Graph_known = (\<lambda>c l. False), Graph_denied = (\<lambda>c l. False),
      Graph_equals = (\<lambda>l l'. l = l'), Graph_root = (\<lambda>l. l), Graph_heads = (\<lambda>l. []),
      Blocks_encode = (\<lambda>l. [of_nat (length l)]), access_canAppend = can,
      entry_create = (\<lambda>idn tag payload nxt.
        \<lparr>entry_cid = payload, entry_tag = tag, entry_payload = payload, entry_next = nxt,
         entry_identity = idn\<rparr>)\<rparr>"

fun apply_call :: "('g, 'r) deps \<Rightarrow> 'g \<Rightarrow> graph_call \<Rightarrow> 'g" where
  "apply_call D g (CallAdd c n) = Graph_add D c n g"
| "apply_call D g (CallDeny c) = Graph_deny D c g"

section \<open>Head codec\<close>

text \<open>
  Modelled from the spec: \<^verbatim>\<open>encodeHeads\<close> and \<^verbatim>\<open>decodeHeads\<close> (\<^verbatim>\<open>utils/replicator.js\<close>) are
  not among the sources; the replicators only call them. The spec describes the encoding as
  the length-prefixed concatenation of the raw hash bytes, and the decoding as validating
  the structure and yielding the hash list or a decode error. The length of a hash is
  written as an unsigned varint, seven bits to a byte from the least significant group
  on, every byte but the last with its high bit set, so that a hash of any length has a
  prefix. Decoding fails when a prefix is cut short, when it is not the shortest one for
  its value, or when it announces more bytes than remain.
\<close>

datatype decode_error = DecodeError

text \<open>The byte of the lowest seven bits of \<open>n\<close>, with the high bit set.\<close>

definition continued :: "nat \<Rightarrow> byte" where
  "continued n = of_nat (128 + n mod 128)"

fun varint :: "nat \<Rightarrow> bytes" where
  "varint n = (if n < 128 then [of_nat n] else continued n # varint (n div 128))"

declare varint.simps [simp del]

text \<open>Reading a varint off the front of a message: its value and the bytes after it.\<close>

fun unvarint :: "bytes \<Rightarrow> (nat \<times> bytes) option" where
  "unvarint [] = None"
| "unvarint (b # bs) =
     (if b < 128 then Some (unat b, bs)
      else case unvarint bs of
             None \<Rightarrow> None
           | Some (n, rest) \<Rightarrow> if n = 0 then None else Some (unat b - 128 + 128 * n, rest))"

definition encodeHead :: "cid \<Rightarrow> bytes" where
  "encodeHead h = varint (length h) @ h"

definition encodeHeads :: "cid list \<Rightarrow> bytes" where
  "encodeHeads heads = concat (map encodeHead heads)"

lemma unvarint_shorter: "unvarint bs = Some (n, rest) \<Longrightarrow> length rest < length bs"
proof (induction bs arbitrary: n)
  case Nil
  then show ?case by simp
next
  case (Cons b bs)
  show ?case
  proof (cases "b < 128")
    case True
    with Cons.prems show ?thesis by simp
  next
    case False
    with Cons.prems obtain m where "unvarint bs = Some (m, rest)"
      by (auto split: option.splits if_splits)
    from Cons.IH [OF this] show ?thesis by simp
  qed
qed

function decodeHeads :: "bytes \<Rightarrow> decode_error + cid list" where
  "decodeHeads [] = Inr []"
| "decodeHeads (b # bs) =
     (case unvarint (b # bs) of
        None \<Rightarrow> Inl DecodeError
      | Some (n, rest) \<Rightarrow>
          if length rest < n then Inl DecodeError
          else case decodeHeads (drop n rest) of
                 Inl e \<Rightarrow> Inl e
               | Inr hs \<Rightarrow> Inr (take n rest # hs))"
  by pat_completeness auto
termination
proof (relation "measure length")
  show "wf (measure length)" by simp
next
  fix b :: byte and bs x2 x y
  assume "unvarint (b # bs) = Some x2" "(x, y) = x2" "\<not> length y < x"
  then have "unvarint (b # bs) = Some (x, y)" by simp
  from unvarint_shorter [OF this] show "(drop x y, b # bs) \<in> measure length" by simp
qed

declare decodeHeads.simps(2) [simp del]

section \<open>StaticAccess\<close>

text \<open>
  An element of \<^verbatim>\<open>manifest.access.config.write\<close> is a string or a \<^verbatim>\<open>Uint8Array\<close>.
\<close>

datatype writer = WriterString string | WriterBytes bytes

datatype access_error =
    ExpectedWriteArray   \<comment> \<open>\<^verbatim>\<open>'expected manifest.access.config.write to be an array'\<close>\<close>
  | NoWriters            \<comment> \<open>\<^verbatim>\<open>'manifest.access.write does not grant access to any writers'\<close>\<close>

record StaticAccess =
  config_write :: "writer list"
  write_set :: "string set"
  access_isStarted :: bool

text \<open>
  \<^verbatim>\<open>base32.encode\<close> (multiformats) and the constant \<^verbatim>\<open>wildcard\<close> (\<^verbatim>\<open>../util.js\<close>) are
  parameters. The constructor's argument is \<^verbatim>\<open>manifest.access.config.write\<close>, \<open>None\<close>
  when it is not an array.
\<close>

definition writer_string :: "(bytes \<Rightarrow> string) \<Rightarrow> writer \<Rightarrow> string" where
  "writer_string base32_encode w =
     (case w of WriterString s \<Rightarrow> s | WriterBytes b \<Rightarrow> base32_encode b)"

definition StaticAccess_new ::
  "(bytes \<Rightarrow> string) \<Rightarrow> writer list option \<Rightarrow> access_error + StaticAccess" where
  "StaticAccess_new base32_encode cw =
     (case cw of
        None \<Rightarrow> Inl ExpectedWriteArray
      | Some ws \<Rightarrow>
          Inr \<lparr>config_write = ws, write_set = set (map (writer_string base32_encode) ws),
               access_isStarted = False\<rparr>)"

definition StaticAccess_start :: "StaticAccess \<Rightarrow> access_error + StaticAccess" where
  "StaticAccess_start a =
     (if access_isStarted a then Inr a
      else if config_write a = [] then Inl NoWriters
      else Inr (a\<lparr>access_isStarted := True\<rparr>))"

definition StaticAccess_stop :: "StaticAccess \<Rightarrow> StaticAccess" where
  "StaticAccess_stop a = (if \<not> access_isStarted a then a else a\<lparr>access_isStarted := False\<rparr>)"

definition canAppend :: "(bytes \<Rightarrow> string) \<Rightarrow> string \<Rightarrow> StaticAccess \<Rightarrow> EntryInstance \<Rightarrow> bool" where
  "canAppend base32_encode wildcard a entry =
     (let string = base32_encode (identity_id (entry_identity entry))
      in string \<in> write_set a \<or> wildcard \<in> write_set a)"

section \<open>Welo.open\<close>

type_synonym address = string

datatype welo_error =
    AlreadyOpen address       \<comment> \<open>\<^verbatim>\<open>database ... is already open\<close>\<close>
  | AlreadyOpening address    \<comment> \<open>\<^verbatim>\<open>database ... is already being opened\<close>\<close>
  | NoIdentity                \<comment> \<open>\<^verbatim>\<open>'no identity available'\<close>\<close>
  | NoDatastore               \<comment> \<open>\<^verbatim>\<open>'no Datastore attached to Welo class'\<close>\<close>
  | MissingComponents         \<comment> \<open>\<^verbatim>\<open>'missing component(s)'\<close>\<close>
  | FailedOpening address     \<comment> \<open>\<^verbatim>\<open>failed opening database with address: ...\<close>\<close>

datatype welo_event = Opened address | Closed address

text \<open>A manifest: the string of its address and the protocols of its four components.\<close>

record Manifest =
  manifest_address :: address
  access_protocol :: string
  entry_protocol :: string
  identity_protocol :: string
  store_protocol :: string

record OpenOptions =
  options_identity :: "IdentityInstance option"
  options_Datastore :: "string option"

record Handlers =
  handlers_access :: "string list"
  handlers_entry :: "string list"
  handlers_identity :: "string list"
  handlers_store :: "string list"

text \<open>
  The state of a \<^verbatim>\<open>Welo\<close>. \<open>opened\<close> is the map \<^verbatim>\<open>opened\<close>; \<open>being_opened\<close> is the set of keys
  of \<^verbatim>\<open>_opening\<close>; \<open>database_opens\<close> lists the addresses \<^verbatim>\<open>Database.open\<close> was called
  for; \<open>closed_listeners\<close> is the set of opened databases that carry the once-only listener
  for \<^verbatim>\<open>closed\<close>.
\<close>

record 'db Welo =
  welo_identity :: "IdentityInstance option"
  welo_datastore :: "string option"
  handlers :: Handlers
  opened :: "address \<rightharpoonup> 'db"
  being_opened :: "address set"
  welo_events :: "welo_event list"
  database_opens :: "address list"
  closed_listeners :: "address set"

text \<open>\<^verbatim>\<open>getComponents\<close> finds a handler for each protocol of the manifest or throws.\<close>

definition getComponents :: "'db Welo \<Rightarrow> Manifest \<Rightarrow> welo_error + unit" where
  "getComponents w m =
     (if access_protocol m \<in> set (handlers_access (handlers w)) \<and>
         entry_protocol m \<in> set (handlers_entry (handlers w)) \<and>
         identity_protocol m \<in> set (handlers_identity (handlers w)) \<and>
         store_protocol m \<in> set (handlers_store (handlers w))
      then Inr () else Inl MissingComponents)"

text \<open>
  \<^verbatim>\<open>open\<close> up to its \<^verbatim>\<open>await\<close>: the two guards, the choice of identity and datastore,
  the components, the call of \<^verbatim>\<open>Database.open\<close>, and the entry in \<^verbatim>\<open>_opening\<close>.
\<close>

definition open_begin :: "'db Welo \<Rightarrow> Manifest \<Rightarrow> OpenOptions \<Rightarrow> welo_error + 'db Welo" where
  "open_begin w m options =
     (let addr = manifest_address m in
      if opened w addr \<noteq> None then Inl (AlreadyOpen addr)
      else if addr \<in> being_opened w then Inl (AlreadyOpening addr)
      else if options_identity options = None \<and> welo_identity w = None then Inl NoIdentity
      else if options_Datastore options = None \<and> welo_datastore w = None then Inl NoDatastore
      else case getComponents w m of
             Inl e \<Rightarrow> Inl e
           | Inr _ \<Rightarrow>
               Inr (w\<lparr>database_opens := database_opens w @ [addr],
                      being_opened := insert addr (being_opened w)\<rparr>))"

text \<open>
  The callbacks that run when the promise of \<^verbatim>\<open>Database.open\<close> settles: \<^verbatim>\<open>then\<close> on a
  database, \<^verbatim>\<open>catch\<close> on a rejection, \<^verbatim>\<open>finally\<close> in both cases.
\<close>

definition open_settle ::
  "'db Welo \<Rightarrow> address \<Rightarrow> unit + 'db \<Rightarrow> (welo_error + 'db) \<times> 'db Welo" where
  "open_settle w addr outcome =
     (case outcome of
        Inr database \<Rightarrow>
          (Inr database,
           w\<lparr>opened := (opened w)(addr \<mapsto> database),
             welo_events := welo_events w @ [Opened addr],
             closed_listeners := insert addr (closed_listeners w),
             being_opened := being_opened w - {addr}\<rparr>)
      | Inl _ \<Rightarrow> (Inl (FailedOpening addr), w\<lparr>being_opened := being_opened w - {addr}\<rparr>))"

text \<open>The whole of \<^verbatim>\<open>open\<close>, with the outcome of \<^verbatim>\<open>Database.open\<close> given.\<close>

definition Welo_open ::
  "'db Welo \<Rightarrow> Manifest \<Rightarrow> OpenOptions \<Rightarrow> unit + 'db \<Rightarrow> (welo_error + 'db) \<times> 'db Welo" where
  "Welo_open w m options outcome =
     (case open_begin w m options of
        Inl e \<Rightarrow> (Inl e, w)
      | Inr w1 \<Rightarrow> open_settle w1 (manifest_address m) outcome)"

text \<open>The listener that \<^verbatim>\<open>open\<close> registers once on the database's \<^verbatim>\<open>closed\<close> event.\<close>

definition database_closed :: "'db Welo \<Rightarrow> address \<Rightarrow> 'db Welo" where
  "database_closed w addr =
     (if addr \<in> closed_listeners w
      then w\<lparr>opened := (opened w)(addr := None),
             welo_events := welo_events w @ [Closed addr],
             closed_listeners := closed_listeners w - {addr}\<rparr>
      else w)"

section \<open>The loop of add, in closed form\<close>

text \<open>
  What the loop of \<^verbatim>\<open>add\<close> does with a batch under a given manifest tag: the calls it
  makes to the graph (one per entry with that tag, \<^verbatim>\<open>add\<close> when the access controller
  admits the entry and \<^verbatim>\<open>deny\<close> otherwise), the blocks it puts, and the warnings it
  prints for the entries it skips. A call is settled in a graph when its hash is accepted
  or denied there (for \<^verbatim>\<open>deny\<close>: denied).
\<close>

definition graph_calls :: "('g, 'r) deps \<Rightarrow> bytes \<Rightarrow> EntryInstance list \<Rightarrow> graph_call list" where
  "graph_calls D tag entries =
     map (\<lambda>e. if access_canAppend D e then CallAdd (entry_cid e) (entry_next e)
               else CallDeny (entry_cid e))
       (filter (\<lambda>e. entry_tag e = tag) entries)"

definition put_blocks :: "bytes \<Rightarrow> EntryInstance list \<Rightarrow> cid set" where
  "put_blocks tag entries =
     set (concat (map (\<lambda>e. [entry_cid e, identity_block (entry_identity e)])
       (filter (\<lambda>e. entry_tag e = tag) entries)))"

definition skipped :: "bytes \<Rightarrow> EntryInstance list \<Rightarrow> string list" where
  "skipped tag entries =
     replicate (length (filter (\<lambda>e. entry_tag e \<noteq> tag) entries)) mismatched_tag"

fun call_settled :: "('g, 'r) deps \<Rightarrow> 'g \<Rightarrow> graph_call \<Rightarrow> bool" where
  "call_settled D g (CallAdd c n) = (Graph_has D c g \<or> Graph_denied D c g)"
| "call_settled D g (CallDeny c) = Graph_denied D c g"

section \<open>Examples\<close>

text \<open>
  Concrete collaborators and replicas, used to run the model. \<open>ex_base32\<close> stands in for
  \<^verbatim>\<open>base32.encode\<close>, \<open>ex_create\<close> for the entry component's \<^verbatim>\<open>create\<close> and
  \<open>ex_root_cid\<close> for the hash of a root block; the wildcard is \<^verbatim>\<open>'*'\<close>.
\<close>

definition ex_base32 :: "bytes \<Rightarrow> string" where
  "ex_base32 bs = CHR ''b'' # map (\<lambda>b. if b < 128 then CHR ''a'' else CHR ''z'') bs"

definition ex_alice :: IdentityInstance where
  "ex_alice = \<lparr>identity_id = [1, 2, 3], identity_block = [10]\<rparr>"

definition ex_bob :: IdentityInstance where
  "ex_bob = \<lparr>identity_id = [200], identity_block = [11]\<rparr>"

definition ex_access :: StaticAccess where
  "ex_access =
     \<lparr>config_write = [WriterBytes [1, 2, 3]],
      write_set = set (map (writer_string ex_base32) [WriterBytes [1, 2, 3]]),
      access_isStarted = False\<rparr>"

definition ex_create :: "IdentityInstance \<Rightarrow> bytes \<Rightarrow> bytes \<Rightarrow> cid list \<Rightarrow> EntryInstance" where
  "ex_create idn tag payload nxt =
     \<lparr>entry_cid = of_nat (length nxt) # payload @ concat nxt, entry_tag = tag,
      entry_payload = payload, entry_next = nxt, entry_identity = idn\<rparr>"

definition ex_root_cid :: "Graph \<Rightarrow> cid" where
  "ex_root_cid g =
     concat (graph_heads g) @ [0] @ concat (graph_tails g) @ [0] @
     concat (missing g) @ [0] @ concat (denied g)"

definition ex_deps :: "(Graph, Graph) deps" where
  "ex_deps = graph_deps ex_root_cid (canAppend ex_base32 ''*'' ex_access) ex_create"

definition ex_tag :: bytes where
  "ex_tag = [42]"

definition ex_datastore :: Datastore where
  "ex_datastore = \<lparr>ds_rootHash = None, ds_get_fails = False, ds_put_fails = False\<rparr>"

definition ex_blockstore :: "Graph Blockstore" where
  "ex_blockstore = \<lparr>bs_blocks = Map.empty, bs_get_fails = False, bs_put_fails = False,
      bs_put_throws = False\<rparr>"

text \<open>A replica just constructed, and the same replica once started.\<close>

definition ex_new :: "(Graph, Graph) Replica" where
  "ex_new = Replica_new ex_tag ex_alice {} ex_datastore ex_blockstore"

definition ex_started :: "(Graph, Graph) Replica" where
  "ex_started = snd (Playable_start ex_deps ex_new)"

text \<open>
  A replica whose root pointer is set while the block store rejects every read: the
  pointer exists and the root is unreadable.
\<close>

definition ex_unreadable :: "(Graph, Graph) Replica" where
  "ex_unreadable =
     Replica_new ex_tag ex_alice {}
       (ex_datastore\<lparr>ds_rootHash := Some [5]\<rparr>) (ex_blockstore\<lparr>bs_get_fails := True\<rparr>)"

text \<open>Three entries: one by the authorised writer, one by another identity, one of another database.\<close>

definition ex_entry1 :: EntryInstance where
  "ex_entry1 = ex_create ex_alice ex_tag [7] []"

definition ex_entry2 :: EntryInstance where
  "ex_entry2 = ex_create ex_bob ex_tag [8] [entry_cid ex_entry1]"

definition ex_entry3 :: EntryInstance where
  "ex_entry3 = ex_create ex_alice [43] [9] []"

text \<open>A started replica over the recording graph.\<close>

definition ex_recording :: "(graph_call list, graph_call list) Replica" where
  "ex_recording =
     (Replica_new ex_tag ex_alice {} ex_datastore
        \<lparr>bs_blocks = Map.empty, bs_get_fails = False, bs_put_fails = False,
      bs_put_throws = False\<rparr>)
       \<lparr>graph := Some [], isStarted := True\<rparr>"

text \<open>A Welo with one handler of each kind and no database open, and a manifest for it.\<close>

definition ex_welo :: "nat Welo" where
  "ex_welo =
     \<lparr>welo_identity = Some ex_alice, welo_datastore = Some ''level'',
      handlers = \<lparr>handlers_access = [''static''], handlers_entry = [''basal''],
                  handlers_identity = [''basal''], handlers_store = [''keyvalue'']\<rparr>,
      opened = Map.empty, being_opened = {}, welo_events = [], database_opens = [],
      closed_listeners = {}\<rparr>"

definition ex_manifest :: Manifest where
  "ex_manifest =
     \<lparr>manifest_address = ''addr'', access_protocol = ''static'', entry_protocol = ''basal'',
      identity_protocol = ''basal'', store_protocol = ''keyvalue''\<rparr>"

definition ex_options :: OpenOptions where
  "ex_options = \<lparr>options_identity = None, options_Datastore = None\<rparr>"

text \<open>The same Welo while the database of \<open>ex_manifest\<close> is being opened, and once it is open.\<close>

definition ex_welo_opening :: "nat Welo" where
  "ex_welo_opening =
     ex_welo\<lparr>database_opens := [''addr''], being_opened := {''addr''}\<rparr>"

definition ex_welo_opened :: "nat Welo" where
  "ex_welo_opened = snd (open_settle ex_welo_opening ''addr'' (Inr 7))"

text \<open>An access controller whose write list is the wildcard.\<close>

definition ex_access_any :: StaticAccess where
  "ex_access_any =
     \<lparr>config_write = [WriterString ''*''], write_set = {''*''}, access_isStarted = False\<rparr>"

text \<open>Fifty heads.\<close>

definition ex_heads :: "cid list" where
  "ex_heads = map (\<lambda>i. [of_nat i, 1, 2]) [0..<50]"









section \<open>Properties of the replica\<close>

lemma add_entries_eq:
  "graph r = Some g \<Longrightarrow>
   add_entries D r es =
     (Inr (), r\<lparr>blocks := blocks r \<union> put_blocks (manifest_tag r) es,
                graph := Some (foldl (apply_call D) g (graph_calls D (manifest_tag r) es)),
                warnings := warnings r @ skipped (manifest_tag r) es\<rparr>)"
proof (induction es arbitrary: r g)
  case Nil
  then show ?case by (simp add: put_blocks_def graph_calls_def skipped_def)
next
  case (Cons e es)
  show ?case
  proof (cases "entry_tag e = manifest_tag r")
    case False
    let ?r1 = "r\<lparr>warnings := warnings r @ [mismatched_tag]\<rparr>"
    have s: "add_entry D r e = (Inr (), ?r1)" using False by (simp add: add_entry_def)
    have g1: "graph ?r1 = Some g" using Cons.prems by simp
    show ?thesis
      using False Cons.IH [OF g1] s
      by (simp add: put_blocks_def graph_calls_def skipped_def replicate_app_Cons_same)
  next
    case True
    let ?g1 = "apply_call D g (if access_canAppend D e then CallAdd (entry_cid e) (entry_next e)
               else CallDeny (entry_cid e))"
    let ?r1 = "r\<lparr>blocks := insert (identity_block (entry_identity e)) (insert (entry_cid e) (blocks r)),
                  graph := Some ?g1\<rparr>"
    have s: "add_entry D r e = (Inr (), ?r1)"
      using True Cons.prems by (simp add: add_entry_def Let_def)
    have g1: "graph ?r1 = Some ?g1" by simp
    show ?thesis
      using True Cons.IH [OF g1] s
      by (simp add: put_blocks_def graph_calls_def skipped_def insert_commute)
  qed
qed

lemma add_eq:
  "graph r = Some g \<Longrightarrow>
   add D r es =
     (let r' = r\<lparr>blocks := blocks r \<union> put_blocks (manifest_tag r) es,
                   graph := Some (foldl (apply_call D) g (graph_calls D (manifest_tag r) es)),
                   warnings := warnings r @ skipped (manifest_tag r) es\<rparr>
      in if \<not> Graph_equals D (foldl (apply_call D) g (graph_calls D (manifest_tag r) es)) g
         then updateRoot D r' else (Inr (), r'))"
  by (simp add: add_def add_entries_eq Let_def)

lemma updateRoot_frame:
  "updateRoot D r = (res, r') \<Longrightarrow>
     graph r' = graph r \<and> blocks r' = blocks r \<and> warnings r' = warnings r \<and>
     manifest_tag r' = manifest_tag r \<and> identity r' = identity r \<and> isStarted r' = isStarted r"
  by (auto simp: updateRoot_def Let_def split: option.splits prod.splits sum.splits)

lemma updateRoot_Inr:
  "updateRoot D r = (Inr u, r') \<Longrightarrow> graph r = Some g \<Longrightarrow>
     events r' = events r @ [Update] \<and>
     root r' = Some (Blocks_encode D (Graph_root D g)) \<and>
     ds_rootHash (datastore r') = Some (Blocks_encode D (Graph_root D g)) \<and>
     bs_blocks (blockstore r') (Blocks_encode D (Graph_root D g)) = Some (Encoded (Graph_root D g))"
  by (auto simp: updateRoot_def setRoot_def datastore_put_def blockstore_put_def Let_def
      split: option.splits prod.splits sum.splits if_splits)

lemma updateRoot_Inl:
  "updateRoot D r = (Inl e, r') \<Longrightarrow> events r' = events r \<and> root r' = root r"
  by (auto simp: updateRoot_def Let_def split: option.splits prod.splits sum.splits)

lemma updateRoot_no_faults:
  "graph r = Some g \<Longrightarrow> \<not> ds_put_fails (datastore r) \<Longrightarrow> \<not> bs_put_fails (blockstore r) \<Longrightarrow>
   updateRoot D r =
     (Inr (), r\<lparr>datastore := (datastore r)\<lparr>ds_rootHash := Some (Blocks_encode D (Graph_root D g))\<rparr>,
                blockstore := (blockstore r)\<lparr>bs_blocks := (bs_blocks (blockstore r))
                   (Blocks_encode D (Graph_root D g) \<mapsto> Encoded (Graph_root D g))\<rparr>,
                root := Some (Blocks_encode D (Graph_root D g)),
                events := events r @ [Update]\<rparr>)"
  by (simp add: updateRoot_def setRoot_def datastore_put_def blockstore_put_def Let_def)

lemma updateRoot_faults:
  "graph r = Some g \<Longrightarrow> ds_put_fails (datastore r) \<or> bs_put_fails (blockstore r) \<Longrightarrow>
   fst (updateRoot D r) = Inl FailedToGetRoot"
  by (auto simp: updateRoot_def setRoot_def datastore_put_def blockstore_put_def Let_def)

text \<open>
  A started replica has a graph, in every state it can reach; so before the graph is
  initialised, and after it is released, \<^verbatim>\<open>has\<close> and \<^verbatim>\<open>known\<close> fail with
  \<^verbatim>\<open>'replica not started'\<close>.
\<close>

lemma add_frame:
  "add D r es = (res, r') \<Longrightarrow>
     isStarted r' = isStarted r \<and> (graph r \<noteq> None \<longrightarrow> graph r' \<noteq> None)"
proof (cases "graph r")
  case None
  assume "add D r es = (res, r')"
  with None show ?thesis by (simp add: add_def)
next
  case (Some g)
  assume a: "add D r es = (res, r')"
  let ?g' = "foldl (apply_call D) g (graph_calls D (manifest_tag r) es)"
  let ?r1 = "r\<lparr>blocks := blocks r \<union> put_blocks (manifest_tag r) es, graph := Some ?g',
               warnings := warnings r @ skipped (manifest_tag r) es\<rparr>"
  show ?thesis
  proof (cases "Graph_equals D ?g' g")
    case True
    with a Some show ?thesis by (auto simp: add_eq Let_def)
  next
    case False
    with a Some have "updateRoot D ?r1 = (res, r')" by (simp add: add_eq Let_def)
    from updateRoot_frame [OF this] show ?thesis by simp
  qed
qed

lemma starting_graph: "graph (snd (starting D r)) \<noteq> None"
proof -
  obtain res r' where s: "starting D r = (res, r')" by (cases "starting D r")
  show ?thesis
  proof (cases "getRoot D (datastore r) (blockstore r)")
    case (Inl e)
    with s have "updateRoot D (r\<lparr>graph := Some (Graph_new D None)\<rparr>) = (res, r')"
      by (simp add: starting_def)
    from updateRoot_frame [OF this] s show ?thesis by simp
  next
    case (Inr b)
    with s show ?thesis by (auto simp: starting_def Let_def)
  qed
qed

lemma write_frame:
  "Replica_write D r p = (res, r') \<Longrightarrow>
     isStarted r' = isStarted r \<and> (graph r \<noteq> None \<longrightarrow> graph r' \<noteq> None)"
proof (cases "isStarted r \<and> graph r \<noteq> None")
  case False
  assume "Replica_write D r p = (res, r')"
  with False show ?thesis by (auto simp: Replica_write_def split: option.splits if_splits)
next
  case True
  assume w: "Replica_write D r p = (res, r')"
  from True obtain g where g: "graph r = Some g" by auto
  define e where "e = entry_create D (identity r) (manifest_tag r) p (Graph_heads D g)"
  define r1 where "r1 = r\<lparr>blocks := insert (entry_cid e) (blocks r)\<rparr>"
  obtain res2 r2 where a: "add D r1 [e] = (res2, r2)" by (cases "add D r1 [e]")
  have g1: "graph r1 \<noteq> None" "isStarted r1 = isStarted r" using g by (simp_all add: r1_def)
  from add_frame [OF a] g1 have f: "isStarted r2 = isStarted r" "graph r2 \<noteq> None" by simp_all
  have "Replica_write D r p =
     (case add D r1 [e] of (Inl x, r3) \<Rightarrow> (Inl x, r3)
        | (Inr _, r3) \<Rightarrow> (Inr e, r3\<lparr>events := events r3 @ [Write]\<rparr>))"
    using True g unfolding Replica_write_def Let_def e_def r1_def by simp
  with w a have "r' = r2 \<or> r' = r2\<lparr>events := events r2 @ [Write]\<rparr>"
    by (cases res2) auto
  with f show ?thesis by auto
qed

lemma started_has_graph:
  "reachable D r \<Longrightarrow> isStarted r \<Longrightarrow> graph r \<noteq> None"
proof (induction rule: reachable.induct)
  case (constructed tag idn blks ds bs)
  then show ?case by (simp add: Replica_new_def)
next
  case (started r)
  show ?case
  proof (cases "isStarted r")
    case True
    with started show ?thesis by (simp add: Playable_start_def)
  next
    case False
    obtain res r' where s: "starting D r = (res, r')" by (cases "starting D r")
    with starting_graph [of D r] have "graph r' \<noteq> None" by simp
    with False s show ?thesis by (cases res) (simp_all add: Playable_start_def)
  qed
next
  case (stopped r)
  then show ?case by (simp add: Playable_stop_def split: if_splits)
next
  case (added r entries)
  obtain res r' where a: "add D r entries = (res, r')" by (cases "add D r entries")
  from add_frame [OF a] added a show ?case by simp
next
  case (written r payload)
  obtain res r' where w: "Replica_write D r payload = (res, r')"
    by (cases "Replica_write D r payload")
  from write_frame [OF w] written w show ?case by simp
qed

lemma no_graph_not_started:
  "reachable D r \<Longrightarrow> graph r = None \<Longrightarrow>
     has D r c = Inl ReplicaNotStarted \<and> known D r c = Inl ReplicaNotStarted"
  using started_has_graph [of D r] by (auto simp: has_def known_def)

text \<open>
  Claim C6. On a replica that is not started (never started, or stopped), \<^verbatim>\<open>write\<close> fails
  with \<^verbatim>\<open>'replica not started'\<close> and leaves the whole state as it was, so no block is
  persisted; \<^verbatim>\<open>has\<close> and \<^verbatim>\<open>known\<close> fail with the same error.
\<close>

theorem not_started_guard:
  "\<not> isStarted r \<Longrightarrow>
     Replica_write D r payload = (Inl ReplicaNotStarted, r) \<and>
     has D r c = Inl ReplicaNotStarted \<and> known D r c = Inl ReplicaNotStarted"
  by (simp add: Replica_write_def has_def known_def)

text \<open>
  Claim C4. After \<^verbatim>\<open>add\<close> on a batch, the graph is the one obtained from the graph
  before by exactly these calls, in the order of the batch: for every entry whose tag is
  the manifest's, \<^verbatim>\<open>Graph.add(entry.cid, entry.next)\<close> when \<^verbatim>\<open>canAppend(entry)\<close> is true
  and \<^verbatim>\<open>Graph.deny(entry.cid)\<close> when it is false.
\<close>

theorem add_graph_calls:
  "graph r = Some g \<Longrightarrow>
   graph (snd (add D r entries)) =
     Some (foldl (apply_call D) g
       (map (\<lambda>e. if access_canAppend D e then CallAdd (entry_cid e) (entry_next e)
                 else CallDeny (entry_cid e))
          (filter (\<lambda>e. entry_tag e = manifest_tag r) entries)))"
proof -
  assume g: "graph r = Some g"
  obtain res r' where a: "add D r entries = (res, r')" by (cases "add D r entries")
  let ?r1 = "r\<lparr>blocks := blocks r \<union> put_blocks (manifest_tag r) entries,
                   graph := Some (foldl (apply_call D) g (graph_calls D (manifest_tag r) entries)),
                   warnings := warnings r @ skipped (manifest_tag r) entries\<rparr>"
  have "graph r' = graph ?r1"
  proof (cases "Graph_equals D (foldl (apply_call D) g (graph_calls D (manifest_tag r) entries)) g")
    case True
    with a g show ?thesis by (simp add: add_eq Let_def)
  next
    case False
    with a g have "updateRoot D ?r1 = (res, r')" by (simp add: add_eq Let_def)
    from updateRoot_frame [OF this] show ?thesis by simp
  qed
  with a show ?thesis by (simp add: graph_calls_def)
qed

lemma recording_calls:
  "foldl (apply_call (recording_deps can)) l cs = l @ cs"
proof (induction cs arbitrary: l)
  case Nil
  show ?case by simp
next
  case (Cons c cs)
  then show ?case by (cases c) (simp_all add: recording_deps_def)
qed


lemma updateRoot_warnings:
  "updateRoot D (r\<lparr>warnings := w\<rparr>) =
     (fst (updateRoot D r), (snd (updateRoot D r))\<lparr>warnings := w\<rparr>)"
  by (simp add: updateRoot_def Let_def split: option.splits prod.splits sum.splits)

lemma filter_tag_facts:
  "put_blocks tag (filter (\<lambda>e. entry_tag e = tag) es) = put_blocks tag es"
  "graph_calls D tag (filter (\<lambda>e. entry_tag e = tag) es) = graph_calls D tag es"
  "skipped tag (filter (\<lambda>e. entry_tag e = tag) es) = []"
  by (simp_all add: put_blocks_def graph_calls_def skipped_def)

text \<open>
  Claim C5. The entries of a batch whose tag is not the manifest's are skipped: \<^verbatim>\<open>add\<close> on
  the batch returns what \<^verbatim>\<open>add\<close> on the batch without them returns, and ends in the same
  state (the same blocks, graph, root, stores and events) except for one warning per
  skipped entry. So the rest of the batch is processed, and a skipped entry puts no block
  and reaches neither \<^verbatim>\<open>Graph.add\<close> nor \<^verbatim>\<open>Graph.deny\<close>.
\<close>

theorem add_skips_mismatched:
  "graph r = Some g \<Longrightarrow>
   fst (add D r entries) = fst (add D r (filter (\<lambda>e. entry_tag e = manifest_tag r) entries)) \<and>
   snd (add D r entries) =
     (snd (add D r (filter (\<lambda>e. entry_tag e = manifest_tag r) entries)))
       \<lparr>warnings := warnings r @
          replicate (length (filter (\<lambda>e. entry_tag e \<noteq> manifest_tag r) entries)) mismatched_tag\<rparr>"
proof -
  assume g: "graph r = Some g"
  let ?t = "manifest_tag r"
  let ?r0 = "r\<lparr>blocks := blocks r \<union> put_blocks ?t entries,
                graph := Some (foldl (apply_call D) g (graph_calls D ?t entries))\<rparr>"
  let ?w = "warnings r @ skipped ?t entries"
  have r1: "r\<lparr>blocks := blocks r \<union> put_blocks ?t entries,
              graph := Some (foldl (apply_call D) g (graph_calls D ?t entries)),
              warnings := ?w\<rparr> = ?r0\<lparr>warnings := ?w\<rparr>" by simp
  have r2: "r\<lparr>blocks := blocks r \<union> put_blocks ?t entries,
              graph := Some (foldl (apply_call D) g (graph_calls D ?t entries)),
              warnings := warnings r\<rparr> = ?r0" by simp
  have full: "add D r entries =
      (if \<not> Graph_equals D (foldl (apply_call D) g (graph_calls D ?t entries)) g
       then updateRoot D (?r0\<lparr>warnings := ?w\<rparr>) else (Inr (), ?r0\<lparr>warnings := ?w\<rparr>))"
    using g by (simp add: add_eq Let_def)
  have filtered: "add D r (filter (\<lambda>e. entry_tag e = ?t) entries) =
      (if \<not> Graph_equals D (foldl (apply_call D) g (graph_calls D ?t entries)) g
       then updateRoot D ?r0 else (Inr (), ?r0))"
    using g by (simp add: add_eq Let_def filter_tag_facts)
  show ?thesis
    unfolding full filtered
    by (simp add: updateRoot_warnings skipped_def)
qed

lemma getRoot_fails:
  "ds_get_fails ds \<or> ds_rootHash ds = None \<or>
     (\<exists>h. ds_rootHash ds = Some h \<and>
        (bs_get_fails bs \<or> bs_blocks bs h = None \<or> bs_blocks bs h = Some Corrupt)) \<Longrightarrow>
   getRoot D ds bs = Inl FailedToGetRoot"
  by (auto simp: getRoot_def datastore_get_def blockstore_get_def Blocks_decode_def
      split: option.splits sum.splits block_bytes.splits)

lemma getRoot_loads:
  "\<not> ds_get_fails ds \<Longrightarrow> ds_rootHash ds = Some h \<Longrightarrow> \<not> bs_get_fails bs \<Longrightarrow>
   bs_blocks bs h = Some (Encoded v) \<Longrightarrow> getRoot D ds bs = Inr (Blocks_encode D v, v)"
  by (simp add: getRoot_def datastore_get_def blockstore_get_def Blocks_decode_def)

text \<open>
  Claim C2, as amended. At startup, whenever loading the persisted root fails, be it that
  the pointer is not found, that the pointer exists and the block is missing, unreadable
  or does not decode, or that a store rejects the read, \<^verbatim>\<open>getRoot\<close> fails with the one
  error \<^verbatim>\<open>'failed to get root'\<close>, which \<open>starting\<close> catches: the replica builds an empty
  graph and persists its root at once (pointer, block, \<^verbatim>\<open>this.root\<close>, one \<^verbatim>\<open>update\<close>
  event). No read failure is surfaced; \<open>starting\<close> fails only when persisting that root
  fails.
\<close>

theorem starting_after_failed_load:
  assumes "ds_get_fails (datastore r) \<or> ds_rootHash (datastore r) = None \<or>
     (\<exists>h. ds_rootHash (datastore r) = Some h \<and>
        (bs_get_fails (blockstore r) \<or> bs_blocks (blockstore r) h = None \<or>
         bs_blocks (blockstore r) h = Some Corrupt))"
  shows "getRoot D (datastore r) (blockstore r) = Inl FailedToGetRoot \<and>
    (let g0 = Graph_new D None; c0 = Blocks_encode D (Graph_root D g0) in
     if ds_put_fails (datastore r) \<or> bs_put_fails (blockstore r)
     then fst (starting D r) = Inl FailedToGetRoot
     else starting D r =
       (Inr (), r\<lparr>graph := Some g0,
                  datastore := (datastore r)\<lparr>ds_rootHash := Some c0\<rparr>,
                  blockstore := (blockstore r)\<lparr>bs_blocks :=
                    (bs_blocks (blockstore r))(c0 \<mapsto> Encoded (Graph_root D g0))\<rparr>,
                  root := Some c0,
                  events := events r @ [Update]\<rparr>))"
proof -
  have f: "getRoot D (datastore r) (blockstore r) = Inl FailedToGetRoot"
    using assms by (rule getRoot_fails)
  let ?r1 = "r\<lparr>graph := Some (Graph_new D None)\<rparr>"
  have s: "starting D r = updateRoot D ?r1"
    by (simp add: starting_def f)
  have g: "graph ?r1 = Some (Graph_new D None)" by simp
  show ?thesis
  proof (cases "ds_put_fails (datastore r) \<or> bs_put_fails (blockstore r)")
    case True
    then have "ds_put_fails (datastore ?r1) \<or> bs_put_fails (blockstore ?r1)" by simp
    from updateRoot_faults [OF g this] True f s show ?thesis by (simp add: Let_def)
  next
    case False
    then have "\<not> ds_put_fails (datastore ?r1)" "\<not> bs_put_fails (blockstore ?r1)" by simp_all
    from updateRoot_no_faults [OF g this] False f s show ?thesis by (simp add: Let_def)
  qed
qed

text \<open>
  Claim C1, as amended. A successful \<^verbatim>\<open>write\<close> dispatches \<^verbatim>\<open>write\<close> last. When the graph
  after the call does not equal the graph before, exactly one \<^verbatim>\<open>update\<close> is dispatched
  before it, and by then the new root is persisted (pointer, block and \<^verbatim>\<open>this.root\<close>);
  when the graph is unchanged, \<^verbatim>\<open>write\<close> is the only event. So \<^verbatim>\<open>update\<close> is delivered
  before \<^verbatim>\<open>write\<close>, never after it.
\<close>

theorem write_notifications:
  assumes "Replica_write D r payload = (Inr entry, r')"
  shows "\<exists>g g'. graph r = Some g \<and> graph r' = Some g' \<and>
     (if Graph_equals D g' g
      then events r' = events r @ [Write]
      else events r' = events r @ [Update, Write] \<and>
           root r' = Some (Blocks_encode D (Graph_root D g')) \<and>
           ds_rootHash (datastore r') = Some (Blocks_encode D (Graph_root D g')) \<and>
           bs_blocks (blockstore r') (Blocks_encode D (Graph_root D g')) =
             Some (Encoded (Graph_root D g')))"
proof -
  from assms have st: "isStarted r" by (auto simp: Replica_write_def split: if_splits)
  from assms st obtain g where g: "graph r = Some g"
    by (cases "graph r") (auto simp: Replica_write_def)
  define e where "e = entry_create D (identity r) (manifest_tag r) payload (Graph_heads D g)"
  define r1 where "r1 = r\<lparr>blocks := insert (entry_cid e) (blocks r)\<rparr>"
  define g' where "g' = foldl (apply_call D) g (graph_calls D (manifest_tag r1) [e])"
  define r2 where "r2 = r1\<lparr>blocks := blocks r1 \<union> put_blocks (manifest_tag r1) [e],
                   graph := Some g', warnings := warnings r1 @ skipped (manifest_tag r1) [e]\<rparr>"
  have g1: "graph r1 = Some g" using g by (simp add: r1_def)
  have a: "add D r1 [e] = (if \<not> Graph_equals D g' g then updateRoot D r2 else (Inr (), r2))"
    using add_eq [OF g1, of D "[e]"] by (simp add: Let_def g'_def r2_def)
  have w: "Replica_write D r payload =
     (case add D r1 [e] of (Inl x, r3) \<Rightarrow> (Inl x, r3)
        | (Inr _, r3) \<Rightarrow> (Inr e, r3\<lparr>events := events r3 @ [Write]\<rparr>))"
    using st g unfolding Replica_write_def Let_def e_def r1_def by simp
  have g2: "graph r2 = Some g'" by (simp add: r2_def)
  have ev2: "events r2 = events r" by (simp add: r2_def r1_def)
  show ?thesis
  proof (cases "Graph_equals D g' g")
    case True
    with a w assms have "r' = r2\<lparr>events := events r2 @ [Write]\<rparr>" by simp
    with True g g2 ev2 show ?thesis by auto
  next
    case False
    obtain res r3 where u: "updateRoot D r2 = (res, r3)" by (cases "updateRoot D r2")
    with False a w assms obtain x where res: "res = Inr x" and r': "r' = r3\<lparr>events := events r3 @ [Write]\<rparr>"
      by (cases res) auto
    from u res have u': "updateRoot D r2 = (Inr x, r3)" by simp
    from updateRoot_Inr [OF u' g2] updateRoot_frame [OF u'] False g g2 ev2 r'
    show ?thesis by auto
  qed
qed






lemma settles_equals: "Graph_settles D \<Longrightarrow> Graph_equals D g g"
  unfolding Graph_settles_def by (elim conjE) (erule allE)

lemma settles_add_has: "Graph_settles D \<Longrightarrow> Graph_has D c g \<Longrightarrow> Graph_add D c n g = g"
  unfolding Graph_settles_def by (elim conjE) simp

lemma settles_add_denied: "Graph_settles D \<Longrightarrow> Graph_denied D c g \<Longrightarrow> Graph_add D c n g = g"
  unfolding Graph_settles_def by (elim conjE) simp

lemma settles_deny_denied: "Graph_settles D \<Longrightarrow> Graph_denied D c g \<Longrightarrow> Graph_deny D c g = g"
  unfolding Graph_settles_def by (elim conjE) simp

lemma settled_after:
  assumes "Graph_settles D"
  shows "call_settled D (apply_call D g c) c"
proof (cases c)
  case (CallAdd h n)
  from assms have "Graph_has D h (Graph_add D h n g) \<or> Graph_denied D h (Graph_add D h n g)"
    unfolding Graph_settles_def by blast
  with CallAdd show ?thesis by simp
next
  case (CallDeny h)
  from assms have "Graph_denied D h (Graph_deny D h g)"
    unfolding Graph_settles_def by blast
  with CallDeny show ?thesis by simp
qed

lemma denied_stable:
  assumes "Graph_settles D" and "Graph_denied D h g"
  shows "Graph_denied D h (apply_call D g c)"
proof -
  from assms have "Graph_denied D h (Graph_add D h' n g) \<and> Graph_denied D h (Graph_deny D h' g)"
    for h' n unfolding Graph_settles_def by blast
  then show ?thesis by (cases c) simp_all
qed

lemma has_stable:
  assumes "Graph_settles D" and "Graph_has D h g"
  shows "Graph_has D h (apply_call D g c) \<or> Graph_denied D h (apply_call D g c)"
proof -
  from assms have
    "(Graph_has D h (Graph_add D h' n g) \<or> Graph_denied D h (Graph_add D h' n g)) \<and>
     (Graph_has D h (Graph_deny D h' g) \<or> Graph_denied D h (Graph_deny D h' g))"
    for h' n unfolding Graph_settles_def by blast
  then show ?thesis by (cases c) simp_all
qed

lemma settled_stable:
  assumes "Graph_settles D" and "call_settled D g c"
  shows "call_settled D (apply_call D g c') c"
proof (cases c)
  case (CallAdd h n)
  with assms(2) have "Graph_has D h g \<or> Graph_denied D h g" by simp
  then have "Graph_has D h (apply_call D g c') \<or> Graph_denied D h (apply_call D g c')"
    using has_stable [OF assms(1)] denied_stable [OF assms(1)] by blast
  with CallAdd show ?thesis by simp
next
  case (CallDeny h)
  with assms(2) have "Graph_denied D h g" by simp
  from denied_stable [OF assms(1) this] CallDeny show ?thesis by simp
qed

lemma settled_noop:
  assumes "Graph_settles D" and "call_settled D g c"
  shows "apply_call D g c = g"
proof (cases c)
  case (CallAdd h n)
  with assms(2) have "Graph_has D h g \<or> Graph_denied D h g" by simp
  then show ?thesis
    using CallAdd settles_add_has [OF assms(1)] settles_add_denied [OF assms(1)] by auto
next
  case (CallDeny h)
  with assms(2) have "Graph_denied D h g" by simp
  then show ?thesis
    using CallDeny settles_deny_denied [OF assms(1)] by simp
qed

lemma foldl_settled:
  assumes "Graph_settles D"
  shows "\<forall>c\<in>set pre. call_settled D g c \<Longrightarrow>
         \<forall>c\<in>set pre \<union> set cs. call_settled D (foldl (apply_call D) g cs) c"
proof (induction cs arbitrary: g pre)
  case Nil
  then show ?case by simp
next
  case (Cons c cs)
  have "\<forall>x\<in>set (c # pre). call_settled D (apply_call D g c) x"
    using Cons.prems settled_after [OF assms] settled_stable [OF assms] by auto
  from Cons.IH [OF this] show ?case by auto
qed

lemma foldl_noop:
  assumes "Graph_settles D"
  shows "\<forall>c\<in>set cs. call_settled D g c \<Longrightarrow> foldl (apply_call D) g cs = g"
  by (induction cs) (simp_all add: settled_noop [OF assms])

lemma calls_repeat:
  assumes "Graph_settles D"
  shows "foldl (apply_call D) (foldl (apply_call D) g cs) cs = foldl (apply_call D) g cs"
proof -
  have "\<forall>c\<in>set [] \<union> set cs. call_settled D (foldl (apply_call D) g cs) c"
    by (rule foldl_settled [OF assms]) simp
  then have "\<forall>c\<in>set cs. call_settled D (foldl (apply_call D) g cs) c" by simp
  from foldl_noop [OF assms this] show ?thesis .
qed

text \<open>
  Claim C3. \<^verbatim>\<open>add\<close> compares the graph after the batch with the snapshot taken before it:
  when \<^verbatim>\<open>equals\<close> holds, the call succeeds and the root, the two stores and the events
  are as before, so no root is persisted and no \<^verbatim>\<open>update\<close> is dispatched. And for a graph
  class that settles its operations as the spec's section 4.1 says (\<open>Graph_settles\<close>),
  adding the same batch a second time succeeds and changes nothing but the warnings for
  the skipped entries: the same graph, no new root, no second \<^verbatim>\<open>update\<close>.
\<close>

theorem add_idempotent:
  assumes "graph r = Some g" and "add D r entries = (res, r1)"
  shows "(\<forall>g1. graph r1 = Some g1 \<and> Graph_equals D g1 g \<longrightarrow>
            res = Inr () \<and> root r1 = root r \<and> datastore r1 = datastore r \<and>
            blockstore r1 = blockstore r \<and> events r1 = events r) \<and>
         (Graph_settles D \<longrightarrow>
            add D r1 entries =
              (Inr (), r1\<lparr>warnings := warnings r1 @
                 replicate (length (filter (\<lambda>e. entry_tag e \<noteq> manifest_tag r) entries))
                   mismatched_tag\<rparr>))"
proof -
  let ?t = "manifest_tag r"
  let ?g' = "foldl (apply_call D) g (graph_calls D ?t entries)"
  let ?r' = "r\<lparr>blocks := blocks r \<union> put_blocks ?t entries, graph := Some ?g',
               warnings := warnings r @ skipped ?t entries\<rparr>"
  have a: "(res, r1) = (if \<not> Graph_equals D ?g' g then updateRoot D ?r' else (Inr (), ?r'))"
    using add_eq [OF assms(1), of D entries] assms(2) by (simp add: Let_def)
  have fr: "graph r1 = Some ?g' \<and> blocks r1 = blocks r \<union> put_blocks ?t entries \<and>
            manifest_tag r1 = ?t"
  proof (cases "Graph_equals D ?g' g")
    case True
    with a show ?thesis by simp
  next
    case False
    with a have "updateRoot D ?r' = (res, r1)" by simp
    from updateRoot_frame [OF this] show ?thesis by simp
  qed
  have first: "res = Inr () \<and> root r1 = root r \<and> datastore r1 = datastore r \<and>
      blockstore r1 = blockstore r \<and> events r1 = events r"
    if "graph r1 = Some g1" and "Graph_equals D g1 g" for g1
  proof -
    from that fr have "Graph_equals D ?g' g" by simp
    with a show ?thesis by simp
  qed
  have second: "add D r1 entries =
      (Inr (), r1\<lparr>warnings := warnings r1 @ skipped ?t entries\<rparr>)" if s: "Graph_settles D"
  proof -
    from fr have g1: "graph r1 = Some ?g'" by simp
    have same: "foldl (apply_call D) ?g' (graph_calls D ?t entries) = ?g'"
      by (rule calls_repeat [OF s])
    have eq: "Graph_equals D ?g' ?g'" by (rule settles_equals [OF s])
    have b: "blocks r1 \<union> put_blocks ?t entries = blocks r1" using fr by auto
    have "r1\<lparr>blocks := blocks r1, graph := Some ?g',
             warnings := warnings r1 @ skipped ?t entries\<rparr> =
          r1\<lparr>warnings := warnings r1 @ skipped ?t entries\<rparr>"
      using g1 by simp
    then show ?thesis
      using add_eq [OF g1, of D entries] fr same eq b by (simp add: Let_def)
  qed
  from first second show ?thesis by (auto simp: skipped_def)
qed

lemma graph_deps_settles: "Graph_settles (graph_deps enc can create)"
  unfolding Graph_settles_def
  by (auto simp: graph_deps_def graph_add_def graph_deny_def graph_has_def graph_denied_def
      graph_equals_def)

lemma byte_unat: "k < 256 \<Longrightarrow> unat (of_nat k :: byte) = k"
  by (simp add: unat_of_nat)

lemma byte_small: "n < 128 \<Longrightarrow> (of_nat n :: byte) < 128 \<and> unat (of_nat n :: byte) = n"
  by (simp add: word_less_nat_alt unat_of_nat)

lemma continued_byte: "\<not> continued n < 128 \<and> unat (continued n) = 128 + n mod 128"
proof -
  have k: "128 + n mod 128 < 256" by simp
  have u: "unat (continued n) = 128 + n mod 128"
    unfolding continued_def by (rule byte_unat [OF k])
  have "\<not> unat (continued n) < unat (128 :: byte)" unfolding u by simp
  then show ?thesis unfolding word_less_nat_alt using u by simp
qed

lemma unvarint_varint: "unvarint (varint n @ rest) = Some (n, rest)"
proof (induction n rule: varint.induct)
  case (1 n)
  show ?case
  proof (cases "n < 128")
    case True
    then show ?thesis using byte_small [OF True] by (simp add: varint.simps [of n])
  next
    case False
    then have d: "n div 128 \<noteq> 0" by simp
    have v: "varint n @ rest = continued n # (varint (n div 128) @ rest)"
      using False by (simp add: varint.simps [of n])
    have ih: "unvarint (varint (n div 128) @ rest) = Some (n div 128, rest)"
      using "1.IH" False by simp
    have "n mod 128 + 128 * (n div 128) = n" by simp
    then show ?thesis
      unfolding v using ih d continued_byte [of n] by simp
  qed
qed

lemma varint_unvarint: "unvarint bs = Some (n, rest) \<Longrightarrow> bs = varint n @ rest"
proof (induction bs arbitrary: n)
  case Nil
  then show ?case by simp
next
  case (Cons b bs)
  show ?case
  proof (cases "b < 128")
    case True
    with Cons.prems have n: "n = unat b" and r: "rest = bs" by simp_all
    from True have "unat b < 128" by (simp add: word_less_nat_alt)
    then show ?thesis using n r by (simp add: varint.simps [of "unat b"])
  next
    case False
    with Cons.prems obtain m where u: "unvarint bs = Some (m, rest)" and m: "m \<noteq> 0"
      and n: "n = unat b - 128 + 128 * m"
      by (auto split: option.splits if_splits)
    define k where "k = unat b - 128"
    from False have ge: "128 \<le> unat b" by (simp add: word_less_nat_alt)
    have lt: "unat b < 256" using unsigned_less [of b, where 'a = nat] by simp
    from ge lt have k: "k < 128" "unat b = 128 + k" by (simp_all add: k_def)
    have n': "n = k + 128 * m" using n by (simp add: k_def)
    have md: "n mod 128 = k" and dv: "n div 128 = m" using k(1) unfolding n' by simp_all
    from m n' have big: "\<not> n < 128" by simp
    have "continued n = of_nat (unat b)" unfolding continued_def md k(2) ..
    then have c: "continued n = b" by simp
    have "varint n = b # varint m" using big c dv by (simp add: varint.simps [of n])
    with Cons.IH [OF u] show ?thesis by simp
  qed
qed

lemma decode_head:
  "decodeHeads (encodeHead h @ rest) =
     (case decodeHeads rest of Inl e \<Rightarrow> Inl e | Inr hs \<Rightarrow> Inr (h # hs))"
proof -
  have ne: "varint (length h) \<noteq> []" by (simp add: varint.simps [of "length h"])
  then obtain b bs where c: "varint (length h) @ h @ rest = b # bs"
    by (cases "varint (length h)") auto
  have u: "unvarint (b # bs) = Some (length h, h @ rest)"
    using unvarint_varint [of "length h" "h @ rest"] c by simp
  have "decodeHeads (b # bs) =
      (if length (h @ rest) < length h then Inl DecodeError
       else case decodeHeads (drop (length h) (h @ rest)) of
              Inl e \<Rightarrow> Inl e
            | Inr hs \<Rightarrow> Inr (take (length h) (h @ rest) # hs))"
    by (simp only: decodeHeads.simps(2) u option.case prod.case)
  then show ?thesis
    unfolding encodeHead_def append_assoc c by (simp split: sum.splits)
qed

lemma decode_encode: "decodeHeads (encodeHeads heads) = Inr heads"
  by (induction heads) (simp_all add: encodeHeads_def decode_head)

lemma encode_decode: "decodeHeads m = Inr hs \<Longrightarrow> encodeHeads hs = m"
proof (induction m arbitrary: hs rule: decodeHeads.induct)
  case 1
  then show ?case by (simp add: encodeHeads_def)
next
  case (2 b bs)
  from "2.prems" obtain n rest where u: "unvarint (b # bs) = Some (n, rest)"
    by (cases "unvarint (b # bs)") (auto simp: decodeHeads.simps(2))
  from "2.prems" u have le: "\<not> length rest < n"
    by (auto simp: decodeHeads.simps(2) split: if_splits)
  from "2.prems" u le obtain tl where d: "decodeHeads (drop n rest) = Inr tl"
    and hs: "hs = take n rest # tl"
    by (auto simp: decodeHeads.simps(2) split: sum.splits)
  from "2.IH" [OF u refl le d] have ih: "encodeHeads tl = drop n rest" .
  have len: "length (take n rest) = n" using le by simp
  from varint_unvarint [OF u] have "b # bs = varint n @ rest" .
  with hs ih len show ?case
    by (simp add: encodeHeads_def encodeHead_def)
qed

lemma decodeHeads_cases: "decodeHeads m = Inl DecodeError \<or> (\<exists>hs. decodeHeads m = Inr hs)"
  by (cases "decodeHeads m") (auto intro: decode_error.exhaust)

text \<open>
  Claim C7. Decoding the encoding of any list of heads, the empty list and hashes of any
  length included, gives back exactly that list, in order; a message that decodes is the
  encoding of the list it decodes to; and a message that is the encoding of no list fails
  with the decode error.
\<close>

theorem head_codec_roundtrip:
  "decodeHeads (encodeHeads heads) = Inr heads \<and>
   (decodeHeads m = Inr hs \<longrightarrow> encodeHeads hs = m) \<and>
   ((\<forall>hs. m \<noteq> encodeHeads hs) \<longrightarrow> decodeHeads m = Inl DecodeError)"
  using decode_encode [of heads] encode_decode [of m] decodeHeads_cases [of m] by blast

text \<open>
  Claim C9. For an access controller built from the manifest's write list,
  \<^verbatim>\<open>canAppend(entry)\<close> is true exactly when the base32 encoding of the entry's identity id
  is in the write set made from that list (strings as they are, byte arrays base32
  encoded) or the wildcard is in it. Two entries with the same identity id get the same
  answer, and \<^verbatim>\<open>start\<close> and \<^verbatim>\<open>stop\<close> leave the write set, and so the answer, as it was.
\<close>

theorem canAppend_write_set:
  assumes "StaticAccess_new base32_encode (Some ws) = Inr a"
  shows "(canAppend base32_encode wildcard a entry \<longleftrightarrow>
            base32_encode (identity_id (entry_identity entry)) \<in> writer_string base32_encode ` set ws \<or>
            wildcard \<in> writer_string base32_encode ` set ws) \<and>
         (identity_id (entry_identity entry') = identity_id (entry_identity entry) \<longrightarrow>
            canAppend base32_encode wildcard a entry' = canAppend base32_encode wildcard a entry) \<and>
         (\<forall>a'. StaticAccess_start a = Inr a' \<longrightarrow>
            write_set a' = write_set a \<and>
            canAppend base32_encode wildcard a' entry = canAppend base32_encode wildcard a entry) \<and>
         write_set (StaticAccess_stop a) = write_set a"
proof -
  from assms have w: "write_set a = writer_string base32_encode ` set ws"
    by (auto simp: StaticAccess_new_def)
  have start: "write_set a' = write_set a" if "StaticAccess_start a = Inr a'" for a'
    using that by (auto simp: StaticAccess_start_def split: if_splits)
  show ?thesis
    using w start by (auto simp: canAppend_def Let_def StaticAccess_stop_def)
qed

text \<open>
  Claim C10. \<^verbatim>\<open>open\<close> on a manifest whose address is already in \<^verbatim>\<open>opened\<close>, or in
  \<^verbatim>\<open>_opening\<close>, throws and leaves the Welo as it was: \<^verbatim>\<open>Database.open\<close> is not called.
  Once \<^verbatim>\<open>open\<close> has passed its guards, \<^verbatim>\<open>Database.open\<close> has been called once more and the
  address is being opened, so another \<^verbatim>\<open>open\<close> for it throws; when the database
  arrives it is recorded in \<^verbatim>\<open>opened\<close> and no longer being opened, and when it emits
  \<^verbatim>\<open>closed\<close> it is removed from \<^verbatim>\<open>opened\<close>.
\<close>

theorem open_refuses_open_address:
  "(opened w (manifest_address m) \<noteq> None \<longrightarrow>
      Welo_open w m options outcome = (Inl (AlreadyOpen (manifest_address m)), w)) \<and>
   (opened w (manifest_address m) = None \<and> manifest_address m \<in> being_opened w \<longrightarrow>
      Welo_open w m options outcome = (Inl (AlreadyOpening (manifest_address m)), w)) \<and>
   (open_begin w m options = Inr w1 \<longrightarrow>
      database_opens w1 = database_opens w @ [manifest_address m] \<and>
      open_begin w1 m options' = Inl (AlreadyOpening (manifest_address m)) \<and>
      fst (open_settle w1 (manifest_address m) (Inr db)) = Inr db \<and>
      opened (snd (open_settle w1 (manifest_address m) (Inr db))) (manifest_address m) = Some db \<and>
      manifest_address m \<notin> being_opened (snd (open_settle w1 (manifest_address m) (Inr db))) \<and>
      opened (database_closed (snd (open_settle w1 (manifest_address m) (Inr db)))
        (manifest_address m)) (manifest_address m) = None)"
proof -
  have a: "Welo_open w m options outcome = (Inl (AlreadyOpen (manifest_address m)), w)"
    if "opened w (manifest_address m) \<noteq> None"
    using that by (auto simp: Welo_open_def open_begin_def Let_def)
  have b: "Welo_open w m options outcome = (Inl (AlreadyOpening (manifest_address m)), w)"
    if "opened w (manifest_address m) = None" "manifest_address m \<in> being_opened w"
    using that by (simp add: Welo_open_def open_begin_def Let_def)
  have c: "database_opens w1 = database_opens w @ [manifest_address m] \<and>
      open_begin w1 m options' = Inl (AlreadyOpening (manifest_address m)) \<and>
      fst (open_settle w1 (manifest_address m) (Inr db)) = Inr db \<and>
      opened (snd (open_settle w1 (manifest_address m) (Inr db))) (manifest_address m) = Some db \<and>
      manifest_address m \<notin> being_opened (snd (open_settle w1 (manifest_address m) (Inr db))) \<and>
      opened (database_closed (snd (open_settle w1 (manifest_address m) (Inr db)))
        (manifest_address m)) (manifest_address m) = None"
    if "open_begin w m options = Inr w1"
  proof -
    from that have w1: "w1 = w\<lparr>database_opens := database_opens w @ [manifest_address m],
        being_opened := insert (manifest_address m) (being_opened w)\<rparr>"
      and n: "opened w (manifest_address m) = None"
      by (auto simp: open_begin_def Let_def split: if_splits sum.splits)
    show ?thesis
      using n by (simp add: w1 open_begin_def open_settle_def database_closed_def Let_def)
  qed
  from a b c show ?thesis by blast
qed

section \<open>The model at concrete inputs\<close>

text \<open>The definitions unfolded when the examples are run.\<close>

lemmas ex_defs =
  ex_base32_def ex_alice_def ex_bob_def ex_access_def ex_create_def ex_root_cid_def ex_deps_def
  ex_tag_def ex_datastore_def ex_blockstore_def ex_new_def ex_started_def ex_unreadable_def
  ex_entry1_def ex_entry2_def ex_entry3_def ex_recording_def

lemmas replica_defs =
  Replica_new_def Playable_start_def Playable_stop_def starting_def stopping_def getRoot_def
  setRoot_def updateRoot_def datastore_get_def datastore_put_def blockstore_get_def
  blockstore_put_def Blocks_decode_def add_def add_entry_def Replica_write_def has_def known_def

lemmas graph_defs =
  graph_deps_def graph_empty_def graph_new_def graph_add_def graph_deny_def graph_has_def
  graph_denied_def graph_known_def graph_heads_def graph_tails_def graph_equals_def

lemmas access_defs = canAppend_def writer_string_def StaticAccess_new_def

lemma ex_started_fields:
  "manifest_tag ex_started = [42]" "graph ex_started = Some graph_empty"
  "isStarted ex_started" "events ex_started = [Update]" "warnings ex_started = []"
  "blocks ex_started = {}" "root ex_started = Some [0, 0, 0]"
  by (simp_all add: ex_defs replica_defs graph_defs Let_def)

theorem not_started_guard_witness:
  "Replica_write ex_deps ex_new [7] = (Inl ReplicaNotStarted, ex_new) \<and>
   has ex_deps ex_new [0, 7] = Inl ReplicaNotStarted \<and>
   known ex_deps ex_new [0, 7] = Inl ReplicaNotStarted \<and>
   Replica_write ex_deps (Playable_stop ex_started) [7] =
     (Inl ReplicaNotStarted, Playable_stop ex_started) \<and>
   has ex_deps (Playable_stop ex_started) [0, 7] = Inl ReplicaNotStarted \<and>
   known ex_deps (Playable_stop ex_started) [0, 7] = Inl ReplicaNotStarted"
proof -
  have n: "\<not> isStarted ex_new" by (simp add: ex_new_def Replica_new_def)
  have s: "\<not> isStarted (Playable_stop ex_started)" by (simp add: Playable_stop_def)
  from not_started_guard [OF n, of ex_deps "[7]" "[0, 7]"]
    not_started_guard [OF s, of ex_deps "[7]" "[0, 7]"]
  show ?thesis by simp
qed

lemma ex_write:
  "fst (Replica_write ex_deps (ex_started\<lparr>events := []\<rparr>) [7]) = Inr ex_entry1"
  "events (snd (Replica_write ex_deps (ex_started\<lparr>events := []\<rparr>) [7])) = [Update, Write]"
  by (simp_all add: ex_defs replica_defs graph_defs access_defs Let_def)

theorem write_before_update_counterexample:
  "fst (Replica_write ex_deps (ex_started\<lparr>events := []\<rparr>) [7]) = Inr ex_entry1 \<and>
   events (snd (Replica_write ex_deps (ex_started\<lparr>events := []\<rparr>) [7])) = [Update, Write] \<and>
   \<not> delivered_before Write Update
       (events (snd (Replica_write ex_deps (ex_started\<lparr>events := []\<rparr>) [7]))) \<and>
   delivered_before Update Write
       (events (snd (Replica_write ex_deps (ex_started\<lparr>events := []\<rparr>) [7])))"
  by (simp add: ex_write)

theorem write_notifications_witness:
  "graph (ex_started\<lparr>events := []\<rparr>) = Some graph_empty \<and>
   graph (snd (Replica_write ex_deps (ex_started\<lparr>events := []\<rparr>) [7])) =
     Some (graph_add [0, 7] [] graph_empty) \<and>
   \<not> graph_equals (graph_add [0, 7] [] graph_empty) graph_empty \<and>
   events (snd (Replica_write ex_deps (ex_started\<lparr>events := []\<rparr>) [7])) = [Update, Write] \<and>
   root (snd (Replica_write ex_deps (ex_started\<lparr>events := []\<rparr>) [7])) =
     Some (ex_root_cid (graph_add [0, 7] [] graph_empty)) \<and>
   ds_rootHash (datastore (snd (Replica_write ex_deps (ex_started\<lparr>events := []\<rparr>) [7]))) =
     Some (ex_root_cid (graph_add [0, 7] [] graph_empty))"
proof -
  let ?r = "ex_started\<lparr>events := []\<rparr>"
  have w: "Replica_write ex_deps ?r [7] = (Inr ex_entry1, snd (Replica_write ex_deps ?r [7]))"
    using ex_write(1) by (metis prod.collapse)
  have g': "graph (snd (Replica_write ex_deps ?r [7])) = Some (graph_add [0, 7] [] graph_empty)"
    by (simp add: ex_defs replica_defs graph_defs access_defs Let_def)
  have ne: "\<not> graph_equals (graph_add [0, 7] [] graph_empty) graph_empty"
    by (simp add: graph_defs)
  have D: "Graph_equals ex_deps = graph_equals" "Blocks_encode ex_deps = ex_root_cid"
    "Graph_root ex_deps = (\<lambda>g. g)"
    by (simp_all add: ex_deps_def graph_deps_def)
  from write_notifications [OF w] g' ne ex_started_fields(2) show ?thesis
    by (auto simp: D)
qed

theorem unreadable_root_counterexample:
  "datastore_get (datastore ex_unreadable) = Inr [5] \<and>
   blockstore_get (blockstore ex_unreadable) [5] = Inl IOFailure \<and>
   fst (starting ex_deps ex_unreadable) = Inr () \<and>
   fst (Playable_start ex_deps ex_unreadable) = Inr () \<and>
   isStarted (snd (Playable_start ex_deps ex_unreadable)) \<and>
   graph (snd (Playable_start ex_deps ex_unreadable)) = Some graph_empty \<and>
   ds_rootHash (datastore (snd (Playable_start ex_deps ex_unreadable))) = Some [0, 0, 0]"
  by (simp add: ex_defs replica_defs graph_defs Let_def)

theorem starting_after_failed_load_witness:
  "getRoot ex_deps (datastore ex_unreadable) (blockstore ex_unreadable) = Inl FailedToGetRoot \<and>
   fst (starting ex_deps ex_unreadable) = Inr () \<and>
   graph (snd (starting ex_deps ex_unreadable)) = Some graph_empty \<and>
   root (snd (starting ex_deps ex_unreadable)) = Some [0, 0, 0] \<and>
   ds_rootHash (datastore (snd (starting ex_deps ex_unreadable))) = Some [0, 0, 0] \<and>
   bs_blocks (blockstore (snd (starting ex_deps ex_unreadable))) [0, 0, 0] =
     Some (Encoded graph_empty) \<and>
   events (snd (starting ex_deps ex_unreadable)) = [Update]"
proof -
  have h: "ds_get_fails (datastore ex_unreadable) \<or> ds_rootHash (datastore ex_unreadable) = None \<or>
     (\<exists>h. ds_rootHash (datastore ex_unreadable) = Some h \<and>
        (bs_get_fails (blockstore ex_unreadable) \<or> bs_blocks (blockstore ex_unreadable) h = None \<or>
         bs_blocks (blockstore ex_unreadable) h = Some Corrupt))"
    by (simp add: ex_unreadable_def Replica_new_def ex_datastore_def ex_blockstore_def)
  have p: "\<not> ds_put_fails (datastore ex_unreadable)" "\<not> bs_put_fails (blockstore ex_unreadable)"
    "events ex_unreadable = []"
    by (simp_all add: ex_unreadable_def Replica_new_def ex_datastore_def ex_blockstore_def)
  have D: "Graph_new ex_deps None = graph_empty" "Graph_root ex_deps = (\<lambda>g. g)"
    "Blocks_encode ex_deps graph_empty = [0, 0, 0]"
    by (simp_all add: ex_deps_def graph_defs ex_root_cid_def)
  from starting_after_failed_load [OF h, of ex_deps] p show ?thesis
    by (simp add: D Let_def)
qed

lemma ex_batch_graph:
  "graph (snd (add ex_deps ex_started [ex_entry1, ex_entry2, ex_entry3])) =
     Some \<lparr>nodes = [([0, 7], [])], missing = [], denied = [[1, 8, 0, 7]]\<rparr>"
  "events (snd (add ex_deps ex_started [ex_entry1, ex_entry2, ex_entry3])) = [Update, Update]"
  by (simp_all add: ex_defs replica_defs graph_defs access_defs Let_def)

theorem add_idempotent_witness:
  "events (snd (add ex_deps ex_started [ex_entry1, ex_entry2, ex_entry3])) = [Update, Update] \<and>
   add ex_deps (snd (add ex_deps ex_started [ex_entry1, ex_entry2, ex_entry3]))
     [ex_entry1, ex_entry2, ex_entry3] =
     (Inr (), (snd (add ex_deps ex_started [ex_entry1, ex_entry2, ex_entry3]))
        \<lparr>warnings := warnings (snd (add ex_deps ex_started [ex_entry1, ex_entry2, ex_entry3])) @
           [mismatched_tag]\<rparr>) \<and>
   events (snd (add ex_deps (snd (add ex_deps ex_started [ex_entry1, ex_entry2, ex_entry3]))
     [ex_entry1, ex_entry2, ex_entry3])) = [Update, Update]"
proof -
  let ?es = "[ex_entry1, ex_entry2, ex_entry3]"
  let ?r1 = "snd (add ex_deps ex_started ?es)"
  have a: "add ex_deps ex_started ?es = (fst (add ex_deps ex_started ?es), ?r1)" by simp
  have s: "Graph_settles ex_deps" unfolding ex_deps_def by (rule graph_deps_settles)
  have k: "length (filter (\<lambda>e. entry_tag e \<noteq> manifest_tag ex_started) ?es) = 1"
    by (simp add: ex_started_fields ex_entry1_def ex_entry2_def ex_entry3_def ex_create_def
        ex_tag_def)
  from add_idempotent [OF ex_started_fields(2) a] s k
  have "add ex_deps ?r1 ?es = (Inr (), ?r1\<lparr>warnings := warnings ?r1 @ [mismatched_tag]\<rparr>)"
    by simp
  then show ?thesis by (simp add: ex_batch_graph)
qed

theorem add_graph_calls_witness:
  "graph (snd (add (recording_deps (canAppend ex_base32 ''*'' ex_access)) ex_recording
     [ex_entry1, ex_entry2, ex_entry3])) =
     Some [CallAdd [0, 7] [], CallDeny [1, 8, 0, 7]]"
proof -
  let ?D = "recording_deps (canAppend ex_base32 ''*'' ex_access)"
  have g: "graph ex_recording = Some []" by (simp add: ex_recording_def)
  have t: "manifest_tag ex_recording = [42]"
    by (simp add: ex_recording_def Replica_new_def ex_tag_def)
  have c: "access_canAppend (recording_deps can) = can" for can
    by (simp add: recording_deps_def)
  have m: "map (\<lambda>e. if access_canAppend ?D e then CallAdd (entry_cid e) (entry_next e)
                 else CallDeny (entry_cid e))
          (filter (\<lambda>e. entry_tag e = manifest_tag ex_recording) [ex_entry1, ex_entry2, ex_entry3]) =
        [CallAdd [0, 7] [], CallDeny [1, 8, 0, 7]]"
    by (simp add: t c access_defs ex_entry1_def ex_entry2_def ex_entry3_def
        ex_create_def ex_tag_def ex_alice_def ex_bob_def ex_access_def ex_base32_def)
  from add_graph_calls [OF g, of ?D "[ex_entry1, ex_entry2, ex_entry3]"]
  show ?thesis
    unfolding m recording_calls by simp
qed

theorem add_skips_mismatched_witness:
  "fst (add ex_deps ex_started [ex_entry1, ex_entry3, ex_entry2]) =
     fst (add ex_deps ex_started [ex_entry1, ex_entry2]) \<and>
   snd (add ex_deps ex_started [ex_entry1, ex_entry3, ex_entry2]) =
     (snd (add ex_deps ex_started [ex_entry1, ex_entry2]))\<lparr>warnings := [mismatched_tag]\<rparr> \<and>
   entry_cid ex_entry3 \<notin> blocks (snd (add ex_deps ex_started [ex_entry1, ex_entry2]))"
proof -
  have f: "filter (\<lambda>e. entry_tag e = manifest_tag ex_started) [ex_entry1, ex_entry3, ex_entry2] =
      [ex_entry1, ex_entry2]"
    "replicate (length (filter (\<lambda>e. entry_tag e \<noteq> manifest_tag ex_started)
        [ex_entry1, ex_entry3, ex_entry2])) mismatched_tag = [mismatched_tag]"
    by (simp_all add: ex_started_fields ex_entry1_def ex_entry2_def ex_entry3_def ex_create_def
        ex_tag_def)
  have b: "entry_cid ex_entry3 \<notin> blocks (snd (add ex_deps ex_started [ex_entry1, ex_entry2]))"
    by (simp add: ex_defs replica_defs graph_defs access_defs Let_def)
  note t = add_skips_mismatched [OF ex_started_fields(2), of ex_deps
      "[ex_entry1, ex_entry3, ex_entry2]", unfolded f ex_started_fields(5) append_Nil]
  from t b show ?thesis by blast
qed

theorem head_codec_roundtrip_witness:
  "decodeHeads (encodeHeads []) = Inr [] \<and>
   decodeHeads (encodeHeads [[1, 2, 3]]) = Inr [[1, 2, 3]] \<and>
   decodeHeads (encodeHeads ex_heads) = Inr ex_heads \<and>
   length ex_heads = 50 \<and>
   decodeHeads (encodeHeads [replicate 256 0]) = Inr [replicate 256 0] \<and>
   encodeHeads [[1, 2, 3], []] = [3, 1, 2, 3, 0] \<and>
   decodeHeads [3, 1, 2] = Inl DecodeError \<and>
   decodeHeads [128, 0] = Inl DecodeError"
proof -
  have l: "length ex_heads = 50" by (simp add: ex_heads_def)
  have e: "encodeHeads [[1, 2, 3], []] = [3, 1, 2, 3, 0]"
    by (simp add: encodeHeads_def encodeHead_def varint.simps)
  have m: "decodeHeads [3, 1, 2] = Inl DecodeError" "decodeHeads [128, 0] = Inl DecodeError"
    by (simp_all add: decodeHeads.simps(2))
  from head_codec_roundtrip [of ex_heads "[]" "[]"] head_codec_roundtrip [of "[[1, 2, 3]]" "[]" "[]"]
    head_codec_roundtrip [of "[]" "[]" "[]"] head_codec_roundtrip [of "[replicate 256 0]" "[]" "[]"]
    l e m
  show ?thesis by blast
qed

theorem canAppend_write_set_witness:
  "canAppend ex_base32 ''*'' ex_access ex_entry1 \<and>
   \<not> canAppend ex_base32 ''*'' ex_access ex_entry2 \<and>
   canAppend ex_base32 ''*'' ex_access ex_entry3 = canAppend ex_base32 ''*'' ex_access ex_entry1 \<and>
   canAppend ex_base32 ''*'' ex_access_any ex_entry2"
proof -
  have n: "StaticAccess_new ex_base32 (Some [WriterBytes [1, 2, 3]]) = Inr ex_access"
    by (simp add: StaticAccess_new_def ex_access_def)
  have i: "identity_id (entry_identity ex_entry3) = identity_id (entry_identity ex_entry1)"
    by (simp add: ex_entry1_def ex_entry3_def ex_create_def)
  have w: "canAppend ex_base32 ''*'' ex_access_any ex_entry2"
    by (simp add: canAppend_def ex_access_any_def)
  from canAppend_write_set [OF n, of "''*''" ex_entry1 ex_entry3]
    canAppend_write_set [OF n, of "''*''" ex_entry2 ex_entry2] i w
  show ?thesis
    by (simp add: writer_string_def ex_base32_def ex_entry1_def ex_entry2_def ex_create_def
        ex_alice_def ex_bob_def)
qed

theorem open_refuses_open_address_witness:
  "open_begin ex_welo ex_manifest ex_options = Inr ex_welo_opening \<and>
   Welo_open ex_welo_opening ex_manifest ex_options (Inr 8) =
     (Inl (AlreadyOpening ''addr''), ex_welo_opening) \<and>
   opened ex_welo_opened ''addr'' = Some 7 \<and>
   ''addr'' \<notin> being_opened ex_welo_opened \<and>
   Welo_open ex_welo_opened ex_manifest ex_options (Inr 8) =
     (Inl (AlreadyOpen ''addr''), ex_welo_opened) \<and>
   opened (database_closed ex_welo_opened ''addr'') ''addr'' = None"
proof -
  have b: "open_begin ex_welo ex_manifest ex_options = Inr ex_welo_opening"
    by (simp add: open_begin_def getComponents_def ex_welo_def ex_manifest_def ex_options_def
        ex_welo_opening_def Let_def)
  have a: "manifest_address ex_manifest = ''addr''" by (simp add: ex_manifest_def)
  have o: "opened ex_welo_opening ''addr'' = None" "''addr'' \<in> being_opened ex_welo_opening"
    by (simp_all add: ex_welo_opening_def ex_welo_def)
  have o2: "opened ex_welo_opened ''addr'' \<noteq> None"
    by (simp add: ex_welo_opened_def open_settle_def)
  from open_refuses_open_address [of ex_welo_opening ex_manifest ex_options "Inr 8"]
    open_refuses_open_address [of ex_welo_opened ex_manifest ex_options "Inr 8"]
    open_refuses_open_address [of ex_welo ex_manifest ex_options _ ex_welo_opening ex_options 7]
    b a o o2
  show ?thesis by (simp add: ex_welo_opened_def)
qed






end
